theory Spec2Isabelle
  imports Complex_Main
begin

section \<open>Values, errors and tables\<close>

text \<open>
  A cell of a pandas table of dtype float64 is a number or the missing marker NaN.
  Numbers are modelled as exact reals: rounding of float64 arithmetic is not part of the
  model, the missing marker and its propagation are.
\<close>

datatype fl = Fin real | NaN

text \<open>The exceptions the modelled operations raise.\<close>

datatype py_error = ValueError | IndexError | KeyError

text \<open>
  A DataFrame: the row labels (\<open>index\<close>), the column labels (\<open>columns\<close>) and the cells,
  row by row. The column labels of the utility matrix are the decimal strings of movie
  ids; the model identifies such a label with the id it denotes, so that the source's
  \<open>str(movie_id)\<close> and \<open>int(movie_id)\<close> are the identity.
\<close>

record 'a frame =
  index :: "int list"
  columns :: "int list"
  cells :: "'a list list"

text \<open>\<open>movies.csv\<close>: rows of \<open>movieId\<close> and \<open>title\<close>.\<close>

type_synonym movies = "(int \<times> string) list"

text \<open>
  The user's table: rows of \<open>Title\<close> and \<open>Rating\<close>. \<open>main\<close> stores integer ratings
  (\<open>int(movie_rating)\<close>); a table read back from disk may hold any number or a missing
  cell, so the column is one of \<^typ>\<open>fl\<close>.
\<close>

type_synonym user_ratings = "(string \<times> fl) list"

text \<open>A \<open>pd.Series\<close>: labelled values, in order.\<close>

type_synonym series = "(int \<times> fl) list"

section \<open>Arithmetic with the missing marker\<close>

fun present :: "fl list \<Rightarrow> real list" where
  "present [] = []"
| "present (Fin x # cs) = x # present cs"
| "present (NaN # cs) = present cs"

text \<open>pandas' \<open>mean\<close> skips missing cells; the mean of no cell at all is NaN.\<close>

definition nanmean :: "fl list \<Rightarrow> fl" where
  "nanmean cs =
     (let xs = present cs
      in if xs = [] then NaN else Fin (sum_list xs / real (length xs)))"

fun fl_sub :: "fl \<Rightarrow> fl \<Rightarrow> fl" where
  "fl_sub (Fin a) (Fin b) = Fin (a - b)"
| "fl_sub _ _ = NaN"

fun fillna :: "real \<Rightarrow> fl \<Rightarrow> real" where
  "fillna v (Fin a) = a"
| "fillna v NaN = v"

text \<open>Python's \<open><\<close> on floats: every comparison with NaN is false.\<close>

fun fl_less :: "fl \<Rightarrow> fl \<Rightarrow> bool" where
  "fl_less (Fin a) (Fin b) = (a < b)"
| "fl_less _ _ = False"

section \<open>\<open>load_user_ratings\<close>\<close>

text \<open>
  \<open>astype('int32')\<close> truncates every number towards zero into the 32-bit range and fails
  on a missing cell.
\<close>

definition int32 :: "int \<Rightarrow> int" where
  "int32 k = (k + 2147483648) mod 4294967296 - 2147483648"

definition trunc :: "real \<Rightarrow> int" where
  "trunc r = (if 0 \<le> r then \<lfloor>r\<rfloor> else \<lceil>r\<rceil>)"

fun astype_int32 :: "fl list \<Rightarrow> py_error + fl list" where
  "astype_int32 [] = Inr []"
| "astype_int32 (NaN # cs) = Inl ValueError"
| "astype_int32 (Fin r # cs) =
     (case astype_int32 cs of
        Inl e \<Rightarrow> Inl e
      | Inr vs \<Rightarrow> Inr (Fin (of_int (int32 (trunc r))) # vs))"

text \<open>
  \<open>pd.read_csv\<close> is the argument \<open>read_csv\<close>: for a file name, the table stored there or
  the exception raised. The bare \<open>except:\<close> catches every exception; the statements of
  its block are modelled one by one, each able to raise.
\<close>

definition load_user_ratings ::
  "(string \<Rightarrow> py_error + user_ratings) \<Rightarrow> string \<Rightarrow> py_error + user_ratings" where
  "load_user_ratings read_csv name =
     (case read_csv (name @ ''_ratings.csv'') of
        Inr user_ratings \<Rightarrow> Inr user_ratings
      | Inl _ \<Rightarrow>
          (let user_ratings = [] :: user_ratings
           in case astype_int32 (map snd user_ratings) of
                Inl e \<Rightarrow> Inl e
              | Inr rating \<Rightarrow>
                  (let user_ratings = zip (map fst user_ratings) rating;
                       mean_rating = nanmean (map snd user_ratings);
                       user_ratings =
                         map (\<lambda>(t, r). (t, fl_sub r mean_rating)) user_ratings
                   in Inr user_ratings)))"

section \<open>\<open>load_movielens_data\<close>\<close>

text \<open>
  \<open>utility.sub(utility.mean(axis='columns'), axis='rows')\<close> subtracts from every cell of a
  row the mean of that row; \<open>fillna(value=0)\<close> then replaces every missing cell by 0.
  The two tables read from disk are the arguments.
\<close>

definition sub_row_mean :: "fl list \<Rightarrow> fl list" where
  "sub_row_mean r = map (\<lambda>c. fl_sub c (nanmean r)) r"

definition load_movielens_data :: "fl frame \<Rightarrow> movies \<Rightarrow> real frame \<times> movies" where
  "load_movielens_data utility_csv movies_csv =
     (let utility = \<lparr>index = index utility_csv, columns = columns utility_csv,
                      cells = map sub_row_mean (cells utility_csv)\<rparr>;
          utility = \<lparr>index = index utility, columns = columns utility,
                      cells = map (map (fillna 0)) (cells utility)\<rparr>
      in (utility, movies_csv))"

text \<open>The centered values at the positions where the raw row has a rating.\<close>

fun at_present :: "fl list \<Rightarrow> real list \<Rightarrow> real list" where
  "at_present (Fin x # cs) (v # vs) = v # at_present cs vs"
| "at_present (NaN # cs) (v # vs) = at_present cs vs"
| "at_present _ _ = []"

section \<open>\<open>recommend_movies\<close>: the query vector\<close>

definition MAX_MOVIE_ID :: nat where
  "MAX_MOVIE_ID = 14076"

definition MAX_USER_ID :: nat where
  "MAX_USER_ID = 610"

text \<open>\<open>pd.Series(data, index=...)\<close> refuses data and labels of different lengths.\<close>

definition Series :: "fl list \<Rightarrow> int list \<Rightarrow> py_error + series" where
  "Series data idx =
     (if length data \<noteq> length idx then Inl ValueError else Inr (zip idx data))"

text \<open>
  \<open>s[k] = v\<close>: every entry labelled \<open>k\<close> is set; when there is none, the series grows by
  one entry at the end.
\<close>

definition series_setitem :: "series \<Rightarrow> int \<Rightarrow> fl \<Rightarrow> series" where
  "series_setitem s k v =
     (if k \<in> set (map fst s)
      then map (\<lambda>(l, x). if l = k then (l, v) else (l, x)) s
      else s @ [(k, v)])"

text \<open>\<open>.values[0][0]\<close> of a selection: its first row, \<open>IndexError\<close> when it is empty.\<close>

definition first_value :: "'a list \<Rightarrow> py_error + 'a" where
  "first_value xs = (case xs of [] \<Rightarrow> Inl IndexError | x # _ \<Rightarrow> Inr x)"

definition movie_id_of :: "movies \<Rightarrow> string \<Rightarrow> py_error + int" where
  "movie_id_of movies movie =
     first_value (map fst (filter (\<lambda>(i, t). t = movie) movies))"

definition rating_of :: "user_ratings \<Rightarrow> string \<Rightarrow> py_error + fl" where
  "rating_of user_ratings movie =
     first_value (map snd (filter (\<lambda>(t, r). t = movie) user_ratings))"

definition title_of :: "movies \<Rightarrow> int \<Rightarrow> py_error + string" where
  "title_of movies movie_id =
     first_value (map snd (filter (\<lambda>(i, t). i = movie_id) movies))"

text \<open>The loop over \<open>movies_watched\<close>.\<close>

fun rate_loop :: "movies \<Rightarrow> user_ratings \<Rightarrow> string list \<Rightarrow> series \<Rightarrow> py_error + series" where
  "rate_loop movies user_ratings [] row = Inr row"
| "rate_loop movies user_ratings (movie # rest) row =
     (case movie_id_of movies movie of
        Inl e \<Rightarrow> Inl e
      | Inr movie_id \<Rightarrow>
          (case rating_of user_ratings movie of
             Inl e \<Rightarrow> Inl e
           | Inr movie_rating \<Rightarrow>
               rate_loop movies user_ratings rest
                 (series_setitem row movie_id movie_rating)))"

definition user_ratings_row ::
  "user_ratings \<Rightarrow> real frame \<Rightarrow> movies \<Rightarrow> py_error + series" where
  "user_ratings_row user_ratings utility movies =
     (case Series (replicate MAX_MOVIE_ID (Fin 0)) (columns utility) of
        Inl e \<Rightarrow> Inl e
      | Inr row \<Rightarrow> rate_loop movies user_ratings (map fst user_ratings) row)"

section \<open>\<open>recommend_movies\<close>: similarity\<close>

definition dot :: "real list \<Rightarrow> real list \<Rightarrow> real" where
  "dot u v = sum_list (map2 (*) u v)"

definition clip :: "real \<Rightarrow> real \<Rightarrow> real \<Rightarrow> real" where
  "clip x lo hi = min (max x lo) hi"

text \<open>
  \<open>scipy.spatial.distance.cosine(u, v)\<close> computes \<open>1 - u\<cdot>v / sqrt((u\<cdot>u) * (v\<cdot>v))\<close> and clips
  the result to \<open>[0, 2]\<close>. Vectors of different lengths are refused. The division \<open>0 / 0\<close>
  of a vector of zero magnitude, and any missing cell, give NaN (numpy warns and goes
  on); clipping keeps NaN.
\<close>

definition cosine :: "real list \<Rightarrow> fl list \<Rightarrow> py_error + fl" where
  "cosine u v =
     (if length u \<noteq> length v then Inl ValueError
      else if NaN \<in> set v then Inr NaN
      else (let w = present v; uv = dot u w; uu = dot u u; vv = dot w w
            in if uu * vv = 0 then Inr NaN
               else Inr (Fin (clip (1 - uv / sqrt (uu * vv)) 0 2))))"

text \<open>\<open>sim = 1 - spatial.distance.cosine(x, y)\<close>.\<close>

definition similarity :: "real list \<Rightarrow> fl list \<Rightarrow> py_error + fl" where
  "similarity x y =
     (case cosine x y of Inl e \<Rightarrow> Inl e | Inr d \<Rightarrow> Inr (fl_sub (Fin 1) d))"

text \<open>
  The magnitude of a vector and the cosine of the angle between two vectors, as the
  specification writes them: \<open>sim(x, y) = (x\<cdot>y) / (\<parallel>x\<parallel> * \<parallel>y\<parallel>)\<close>.
\<close>

definition magnitude :: "real list \<Rightarrow> real" where
  "magnitude u = sqrt (dot u u)"

definition cos_sim :: "real list \<Rightarrow> real list \<Rightarrow> real" where
  "cos_sim u w = dot u w / (magnitude u * magnitude w)"

text \<open>\<open>utility.iloc[i]\<close>: the row at position \<open>i\<close>.\<close>

definition iloc :: "'a frame \<Rightarrow> nat \<Rightarrow> py_error + 'a list" where
  "iloc df i = (if i < length (cells df) then Inr (cells df ! i) else Inl IndexError)"

text \<open>
  The loop \<open>for i in range(MAX_USER_ID)\<close> over the positions given, filling the dictionary
  \<open>correlations\<close>; the result lists its items in insertion order.
\<close>

fun correlations_loop ::
  "real frame \<Rightarrow> fl list \<Rightarrow> nat list \<Rightarrow> py_error + (nat \<times> fl) list" where
  "correlations_loop utility y [] = Inr []"
| "correlations_loop utility y (i # rest) =
     (case iloc utility i of
        Inl e \<Rightarrow> Inl e
      | Inr x \<Rightarrow>
          (case similarity x y of
             Inl e \<Rightarrow> Inl e
           | Inr sim \<Rightarrow>
               (case correlations_loop utility y rest of
                  Inl e \<Rightarrow> Inl e
                | Inr correlations \<Rightarrow> Inr ((i, sim) # correlations))))"

section \<open>\<open>recommend_movies\<close>: the closest users\<close>

text \<open>
  \<open>sorted(..., key=..., reverse=True)\<close> is a stable sort into descending order that
  compares keys with \<open><\<close> only: an item moves behind another one only when its key is
  smaller. The model is the insertion sort with these properties. It is CPython's sort
  where the keys are totally ordered, and where no comparison holds at all (every key
  NaN: the list stays as it is); for keys of which only some are NaN the order CPython
  produces depends on its merge strategy and is not modelled.
\<close>

fun insert_desc :: "('a \<Rightarrow> fl) \<Rightarrow> 'a \<Rightarrow> 'a list \<Rightarrow> 'a list" where
  "insert_desc key x [] = [x]"
| "insert_desc key x (y # ys) =
     (if fl_less (key x) (key y) then y # insert_desc key x ys else x # y # ys)"

definition sorted_reverse :: "('a \<Rightarrow> fl) \<Rightarrow> 'a list \<Rightarrow> 'a list" where
  "sorted_reverse key xs = foldr (insert_desc key) xs []"

text \<open>Lines 68 to 81: the positions of the 20 rows of highest similarity.\<close>

definition relevant_idx :: "real frame \<Rightarrow> fl list \<Rightarrow> py_error + nat list" where
  "relevant_idx utility y =
     (case correlations_loop utility y [0..<MAX_USER_ID] of
        Inl e \<Rightarrow> Inl e
      | Inr correlations \<Rightarrow>
          (let sorted_corr = sorted_reverse snd correlations
           in Inr (map fst (take 20 sorted_corr))))"

text \<open>
  \<open>utility.loc[labels, :]\<close> selects rows by label, for every label all the rows that
  carry it; a label that no row carries is a \<open>KeyError\<close>.
\<close>

fun loc_rows :: "'a frame \<Rightarrow> int list \<Rightarrow> py_error + 'a list list" where
  "loc_rows df [] = Inr []"
| "loc_rows df (l # ls) =
     (case map snd (filter (\<lambda>(k, r). k = l) (zip (index df) (cells df))) of
        [] \<Rightarrow> Inl KeyError
      | r # rs \<Rightarrow>
          (case loc_rows df ls of
             Inl e \<Rightarrow> Inl e
           | Inr rest \<Rightarrow> Inr ((r # rs) @ rest)))"

section \<open>\<open>recommend_movies\<close>: the ranking\<close>

definition replace_zero :: "real \<Rightarrow> fl" where
  "replace_zero c = (if c = 0 then NaN else Fin c)"

text \<open>The columns of a table, each with its label.\<close>

definition labelled_columns :: "int list \<Rightarrow> 'a list list \<Rightarrow> (int \<times> 'a list) list" where
  "labelled_columns cols rows =
     map (\<lambda>j. (cols ! j, map (\<lambda>r. r ! j) rows)) [0..<length cols]"

text \<open>\<open>dropna(axis=1, how='all')\<close> drops the columns whose cells are all missing.\<close>

definition dropna_all :: "(int \<times> fl list) list \<Rightarrow> (int \<times> fl list) list" where
  "dropna_all cs = filter (\<lambda>(l, c). list_ex (\<lambda>v. v \<noteq> NaN) c) cs"

text \<open>
  \<open>sort_values(ascending=False)\<close> sorts the numbers into descending order and puts missing
  values last. numpy's quicksort leaves the order of equal values open; the model keeps
  them in their original order.
\<close>

definition sort_values_desc :: "(int \<times> fl) list \<Rightarrow> (int \<times> fl) list" where
  "sort_values_desc s =
     sorted_reverse snd (filter (\<lambda>(l, v). v \<noteq> NaN) s) @ filter (\<lambda>(l, v). v = NaN) s"

text \<open>Lines 87 to 95: \<open>means_series\<close> after sorting, for the rows of the closest users.\<close>

definition means_series :: "int list \<Rightarrow> real list list \<Rightarrow> (int \<times> fl) list" where
  "means_series cols closests_users =
     (let closests_users = map (map replace_zero) closests_users;
          kept = dropna_all (labelled_columns cols closests_users);
          means = map (\<lambda>(l, c). (l, nanmean c)) kept
      in sort_values_desc means)"

text \<open>Line 98: the labels of the 10 highest means.\<close>

definition top_movie_ids :: "int list \<Rightarrow> real list list \<Rightarrow> int list" where
  "top_movie_ids cols closests_users = take 10 (map fst (means_series cols closests_users))"

text \<open>The mean of the non-zero cells of a column, as the specification words it.\<close>

definition nonzero_mean :: "real list \<Rightarrow> real" where
  "nonzero_mean c = sum_list (filter (\<lambda>v. v \<noteq> 0) c) / real (length (filter (\<lambda>v. v \<noteq> 0) c))"

section \<open>\<open>recommend_movies\<close>\<close>

text \<open>The list \<open>movie_ids_rec\<close>, or the exception raised before it is built.\<close>

definition movie_ids_rec ::
  "user_ratings \<Rightarrow> real frame \<Rightarrow> movies \<Rightarrow> py_error + int list" where
  "movie_ids_rec user_ratings utility movies =
     (case user_ratings_row user_ratings utility movies of
        Inl e \<Rightarrow> Inl e
      | Inr row \<Rightarrow>
          (case relevant_idx utility (map snd row) of
             Inl e \<Rightarrow> Inl e
           | Inr idx \<Rightarrow>
               (case loc_rows utility (map int idx) of
                  Inl e \<Rightarrow> Inl e
                | Inr closests_users \<Rightarrow>
                    Inr (top_movie_ids (columns utility) closests_users))))"

text \<open>
  The last loop looks each id up in \<open>movies\<close> and writes the title with \<open>st.write\<close>: the
  titles written so far, and the exception that ended the loop, if any.
\<close>

fun write_titles :: "movies \<Rightarrow> int list \<Rightarrow> string list \<times> py_error option" where
  "write_titles movies [] = ([], None)"
| "write_titles movies (movie_id # rest) =
     (case title_of movies movie_id of
        Inl e \<Rightarrow> ([], Some e)
      | Inr title \<Rightarrow>
          (let (written, e) = write_titles movies rest in (title # written, e)))"

text \<open>
  \<open>recommend_movies\<close> returns nothing; what it hands to the caller is the sequence of
  titles it writes, and the exception it raises, if any.
\<close>

definition recommend_movies ::
  "user_ratings \<Rightarrow> real frame \<Rightarrow> movies \<Rightarrow> string list \<times> py_error option" where
  "recommend_movies user_ratings utility movies =
     (case movie_ids_rec user_ratings utility movies of
        Inl e \<Rightarrow> ([], Some e)
      | Inr ids \<Rightarrow> write_titles movies (take 10 ids))"

section \<open>A population of the size the code expects\<close>

text \<open>
  610 users over 14076 movies, labelled from 0. Every user has the same centered row: 1
  for movie 0, -1 for movie 1 and 0 elsewhere. The catalog names the movies 0 and 1.
\<close>

definition population :: "real frame" where
  "population =
     \<lparr>index = map int [0..<MAX_USER_ID],
      columns = map int [0..<MAX_MOVIE_ID],
      cells = replicate MAX_USER_ID (1 # - 1 # replicate (MAX_MOVIE_ID - 2) 0)\<rparr>"

definition catalog :: movies where
  "catalog = [(0, ''Toy Story (1995)''), (1, ''Jumanji (1995)'')]"

section \<open>The scenario of the specification\<close>

text \<open>
  Three reference rows over four items, \<open>[5, 3, -, -]\<close>, \<open>[-, 4, 5, -]\<close> and
  \<open>[1, -, -, 5]\<close>: the specification writes 0 for an item that is not rated, the file
  read by the code leaves the cell empty. The user rates item 0 with 5 and item 1 with 3.
\<close>

definition scenario_csv :: "fl frame" where
  "scenario_csv =
     \<lparr>index = [0, 1, 2], columns = [0, 1, 2, 3],
      cells = [[Fin 5, Fin 3, NaN, NaN], [NaN, Fin 4, Fin 5, NaN], [Fin 1, NaN, NaN, Fin 5]]\<rparr>"

definition scenario_movies :: movies where
  "scenario_movies = [(0, ''Item 0''), (1, ''Item 1''), (2, ''Item 2''), (3, ''Item 3'')]"

definition scenario_ratings :: user_ratings where
  "scenario_ratings = [(''Item 0'', Fin 5), (''Item 1'', Fin 3)]"

definition scenario_utility :: "real frame" where
  "scenario_utility = fst (load_movielens_data scenario_csv scenario_movies)"

section \<open>Centering\<close>

lemma present_all_NaN: "(\<forall>c \<in> set r. c = NaN) \<Longrightarrow> present r = []"
  by (induction r rule: present.induct) auto

lemma length_present_le: "length (present r) \<le> length r"
  by (induction r rule: present.induct) auto

lemma at_present_sub:
  "sum_list (at_present r (map (\<lambda>c. fillna 0 (fl_sub c (Fin m))) r))
     = sum_list (present r) - real (length (present r)) * m"
  by (induction r rule: present.induct) (auto simp: algebra_simps)

lemma at_present_none: "present r = [] \<Longrightarrow> at_present r vs = []"
  by (induction r vs rule: at_present.induct) auto

lemma centered_row_sum:
  "sum_list (at_present r (map (fillna 0) (sub_row_mean r))) = 0"
proof (cases "present r = []")
  case True
  then show ?thesis
    by (simp add: at_present_none)
next
  case False
  then have "real (length (present r)) \<noteq> 0" by simp
  then show ?thesis using False
    by (simp add: sub_row_mean_def nanmean_def Let_def comp_def at_present_sub)
qed

lemma centered_cell:
  assumes "j < length r"
  shows "map (fillna 0) (sub_row_mean r) ! j =
           (case r ! j of NaN \<Rightarrow> 0
            | Fin x \<Rightarrow> x - sum_list (present r) / real (length (present r)))"
proof (cases "r ! j")
  case NaN
  with assms show ?thesis by (simp add: sub_row_mean_def)
next
  case (Fin x)
  have "Fin x \<in> set r" using assms Fin by (metis nth_mem)
  then have "present r \<noteq> []"
    by (induction r rule: present.induct) auto
  with assms Fin show ?thesis
    by (simp add: sub_row_mean_def nanmean_def Let_def)
qed

lemma centered_all_absent:
  assumes "\<forall>c \<in> set r. c = NaN"
  shows "map (fillna 0) (sub_row_mean r) = replicate (length r) 0"
proof -
  have "map (fillna 0) (map (\<lambda>c. fl_sub c m) r) = replicate (length r) 0" for m
    using assms by (induction r) auto
  then show ?thesis by (simp add: sub_row_mean_def)
qed



section \<open>Loading the user's ratings\<close>

text \<open>
  Claim C10. Loading a user's ratings never raises. When the file of the user cannot be
  read, whatever the exception, the result is the empty table: the conversion to
  \<open>int32\<close>, the mean and the subtraction of the \<open>except\<close> block run on a table without
  rows and leave it empty. When the file is read, the table is returned as stored: no
  mean is subtracted.
\<close>

theorem load_user_ratings_result:
  "load_user_ratings read_csv name =
     (case read_csv (name @ ''_ratings.csv'') of
        Inr stored \<Rightarrow> Inr stored
      | Inl e \<Rightarrow> Inr [])"
  by (simp add: load_user_ratings_def split: sum.splits)

section \<open>The similarity score\<close>

lemma dot_Nil [simp]: "dot [] v = 0" "dot u [] = 0"
  by (simp_all add: dot_def)

lemma dot_Cons [simp]: "dot (a # u) (b # v) = a * b + dot u v"
  by (simp add: dot_def)

lemma dot_self_nonneg: "0 \<le> dot u u"
  by (induction u) auto

lemma dot_self_zero_iff: "dot u u = 0 \<longleftrightarrow> (\<forall>a \<in> set u. a = 0)"
proof (induction u)
  case Nil
  then show ?case by simp
next
  case (Cons a u)
  have "a * a + dot u u = 0 \<longleftrightarrow> a * a = 0 \<and> dot u u = 0"
    using dot_self_nonneg [of u] by (intro add_nonneg_eq_0_iff) auto
  with Cons show ?case by auto
qed

lemma dot_zero_right:
  "length u = length v \<Longrightarrow> \<forall>b \<in> set v. b = 0 \<Longrightarrow> dot u v = 0"
  by (induction u v rule: list_induct2) auto

lemma dot_zero_left:
  "length u = length v \<Longrightarrow> \<forall>a \<in> set u. a = 0 \<Longrightarrow> dot u v = 0"
  by (induction u v rule: list_induct2) auto

lemma sum_squares_expand:
  "length u = length v \<Longrightarrow>
   sum_list (map2 (\<lambda>a b. (s * a - t * b)\<^sup>2) u v)
     = s\<^sup>2 * dot u u - 2 * s * t * dot u v + t\<^sup>2 * dot v v"
  by (induction u v rule: list_induct2) (auto simp: algebra_simps power2_eq_square)

lemma sum_squares_nonneg: "0 \<le> sum_list (map2 (\<lambda>a b. (s * a - t * b)\<^sup>2) u (v :: real list))"
  by (rule sum_list_nonneg) auto

text \<open>The inequality of Cauchy and Schwarz for the dot product of two lists.\<close>

lemma dot_square_le:
  assumes len: "length u = length v"
  shows "(dot u v)\<^sup>2 \<le> dot u u * dot v v"
proof (cases "dot v v = 0")
  case True
  then have "\<forall>b \<in> set v. b = 0" by (simp add: dot_self_zero_iff)
  with len have "dot u v = 0" by (rule dot_zero_right)
  with True show ?thesis by simp
next
  case False
  with dot_self_nonneg [of v] have pos: "0 < dot v v" by simp
  have "0 \<le> (dot v v)\<^sup>2 * dot u u - 2 * dot v v * dot u v * dot u v
             + (dot u v)\<^sup>2 * dot v v"
    using sum_squares_nonneg [of "dot v v" "dot u v" u v]
    by (simp add: sum_squares_expand [OF len])
  also have "\<dots> = dot v v * (dot u u * dot v v - (dot u v)\<^sup>2)"
    by (simp add: algebra_simps power2_eq_square)
  finally have "0 \<le> dot u u * dot v v - (dot u v)\<^sup>2"
    using pos by (simp add: zero_le_mult_iff)
  then show ?thesis by simp
qed

lemma dot_abs_le:
  assumes "length u = length v"
  shows "\<bar>dot u v\<bar> \<le> sqrt (dot u u * dot v v)"
proof -
  have "sqrt ((dot u v)\<^sup>2) \<le> sqrt (dot u u * dot v v)"
    using dot_square_le [OF assms] by (simp only: real_sqrt_le_iff)
  then show ?thesis by simp
qed

lemma present_map_Fin [simp]: "present (map Fin w) = w"
  by (induction w) auto

lemma NaN_notin_Fin_image [simp]: "NaN \<notin> Fin ` A"
  by auto

lemma map_Fin_present: "NaN \<notin> set v \<Longrightarrow> map Fin (present v) = v"
  by (induction v rule: present.induct) auto

lemma length_present: "NaN \<notin> set v \<Longrightarrow> length (present v) = length v"
  by (induction v rule: present.induct) auto

lemma magnitude_zero_iff: "magnitude u = 0 \<longleftrightarrow> (\<forall>a \<in> set u. a = 0)"
  by (simp add: magnitude_def dot_self_zero_iff)

lemma magnitude_zero_dot: "magnitude u = 0 \<longleftrightarrow> dot u u = 0"
  by (simp add: magnitude_def)

lemma cos_sim_bounds:
  assumes "length u = length w" "magnitude u \<noteq> 0" "magnitude w \<noteq> 0"
  shows "- 1 \<le> cos_sim u w" "cos_sim u w \<le> 1"
proof -
  have nz: "dot u u \<noteq> 0" "dot w w \<noteq> 0"
    using assms by (simp_all add: magnitude_def)
  have pos: "0 < sqrt (dot u u * dot w w)"
    using nz dot_self_nonneg [of u] dot_self_nonneg [of w]
    by (simp add: zero_less_mult_iff less_le)
  have "\<bar>dot u w\<bar> \<le> sqrt (dot u u * dot w w)"
    using assms(1) by (rule dot_abs_le)
  then have "\<bar>dot u w / sqrt (dot u u * dot w w)\<bar> \<le> 1"
    using pos by (simp add: abs_divide)
  then have a: "\<bar>cos_sim u w\<bar> \<le> 1"
    by (simp only: cos_sim_def magnitude_def real_sqrt_mult)
  show "- 1 \<le> cos_sim u w" using a by linarith
  show "cos_sim u w \<le> 1" using a by linarith
qed

lemma similarity_Fin:
  assumes "length u = length w"
  shows "similarity u (map Fin w) =
           Inr (if magnitude u = 0 \<or> magnitude w = 0 then NaN else Fin (cos_sim u w))"
proof (cases "magnitude u = 0 \<or> magnitude w = 0")
  case True
  with assms show ?thesis
    by (auto simp: similarity_def cosine_def magnitude_def)
next
  case False
  then have nz: "magnitude u \<noteq> 0" "magnitude w \<noteq> 0" by simp_all
  then have nz': "dot u u \<noteq> 0" "dot w w \<noteq> 0"
    by (simp_all add: magnitude_def)
  have b: "- 1 \<le> cos_sim u w" "cos_sim u w \<le> 1"
    using assms nz by (rule cos_sim_bounds)+
  have q: "dot u w / sqrt (dot u u * dot w w) = cos_sim u w"
    by (simp add: cos_sim_def magnitude_def real_sqrt_mult)
  have "clip (1 - cos_sim u w) 0 2 = 1 - cos_sim u w"
    using b by (simp add: clip_def)
  with assms nz nz' show ?thesis
    by (simp add: similarity_def cosine_def Let_def q)
qed

text \<open>
  Claim C4, as the code has it. For two vectors of the same length, the score is the
  cosine similarity \<open>x\<cdot>y / (\<parallel>x\<parallel> * \<parallel>y\<parallel>)\<close> when both have non-zero magnitude, and then
  lies in \<open>[-1, 1]\<close>; when one of them has zero magnitude the score is NaN, not 0 (no
  exception is raised).
\<close>

theorem similarity_score:
  assumes "length x = length y"
  shows "similarity x (map Fin y) =
           Inr (if magnitude x = 0 \<or> magnitude y = 0 then NaN else Fin (cos_sim x y)) \<and>
         (magnitude x \<noteq> 0 \<and> magnitude y \<noteq> 0 \<longrightarrow>
            - 1 \<le> cos_sim x y \<and> cos_sim x y \<le> 1)"
  using assms by (simp add: similarity_Fin cos_sim_bounds)

text \<open>The vectors \<open>[3, 4]\<close> and \<open>[4, 3]\<close> have magnitude 5 and similarity 24/25.\<close>

theorem similarity_score_witness:
  "length [3, 4 :: real] = length [4, 3 :: real] \<and>
   magnitude [3, 4] \<noteq> 0 \<and> magnitude [4, 3] \<noteq> 0 \<and>
   similarity [3, 4] (map Fin [4, 3]) = Inr (Fin (24 / 25)) \<and>
   - 1 \<le> cos_sim [3, 4] [4, 3] \<and> cos_sim [3, 4] [4, 3] \<le> 1"
proof -
  have m: "magnitude [3, 4] = 5" "magnitude [4, 3] = 5"
    by (simp_all add: magnitude_def real_sqrt_unique)
  have c: "cos_sim [3, 4] [4, 3] = 24 / 25"
    by (simp add: cos_sim_def m)
  have l: "length [3, 4 :: real] = length [4, 3 :: real]" by simp
  show ?thesis
    using similarity_score [OF l] by (simp add: m c)
qed

text \<open>
  The claim as it is written fails for a vector of zero magnitude: the score of the row
  \<open>[1, 2]\<close> against the query vector \<open>[0, 0]\<close> is NaN, where the claim has 0.
\<close>

theorem similarity_zero_vector_counterexample:
  "similarity [1, 2] [Fin 0, Fin 0] = Inr NaN \<and>
   similarity [1, 2] [Fin 0, Fin 0] \<noteq> Inr (Fin 0)"
  by (simp add: similarity_def cosine_def)

section \<open>Sorting into descending order\<close>

lemma set_insert_desc [simp]: "set (insert_desc key x ys) = insert x (set ys)"
  by (induction ys) auto

lemma length_insert_desc [simp]: "length (insert_desc key x ys) = Suc (length ys)"
  by (induction ys) auto

lemma distinct_map_insert_desc:
  "distinct (map f (insert_desc key x ys)) \<longleftrightarrow> f x \<notin> f ` set ys \<and> distinct (map f ys)"
  by (induction ys) auto

lemma set_sorted_reverse [simp]: "set (sorted_reverse key xs) = set xs"
  by (induction xs) (auto simp: sorted_reverse_def)

lemma length_sorted_reverse [simp]: "length (sorted_reverse key xs) = length xs"
  by (induction xs) (auto simp: sorted_reverse_def)

lemma sorted_reverse_Cons:
  "sorted_reverse key (x # xs) = insert_desc key x (sorted_reverse key xs)"
  by (simp add: sorted_reverse_def)

lemma sorted_reverse_Nil [simp]: "sorted_reverse key [] = []"
  by (simp add: sorted_reverse_def)

lemma distinct_map_sorted_reverse [simp]:
  "distinct (map f (sorted_reverse key xs)) \<longleftrightarrow> distinct (map f xs)"
  by (induction xs) (auto simp: sorted_reverse_Cons distinct_map_insert_desc)

text \<open>A list in which no item is smaller than its predecessor stays as it is.\<close>

lemma insert_desc_front:
  "ys = [] \<or> \<not> fl_less (key x) (key (hd ys)) \<Longrightarrow> insert_desc key x ys = x # ys"
  by (cases ys) auto

lemma sorted_reverse_unchanged:
  "sorted_wrt (\<lambda>a b. \<not> fl_less (key a) (key b)) xs \<Longrightarrow> sorted_reverse key xs = xs"
proof (induction xs)
  case Nil
  then show ?case by simp
next
  case (Cons x xs)
  then have "sorted_reverse key xs = xs" by simp
  moreover have "xs = [] \<or> \<not> fl_less (key x) (key (hd xs))"
    using Cons.prems by (cases xs) auto
  ultimately show ?case
    by (simp add: sorted_reverse_Cons insert_desc_front)
qed

lemma sorted_reverse_all_NaN:
  assumes "\<forall>x \<in> set xs. key x = NaN"
  shows "sorted_reverse key xs = xs"
proof -
  have "\<not> fl_less (key a) (key b)" if "b \<in> set xs" for a b
    using assms that by (cases "key a") auto
  then have "sorted_wrt (\<lambda>a b. \<not> fl_less (key a) (key b)) xs"
    by (simp add: sorted_wrt_iff_nth_less)
  then show ?thesis by (rule sorted_reverse_unchanged)
qed

text \<open>
  Keys that are all numbers: the result is in descending order, and of two items with the
  same key the one that stood first still stands first. \<open>pos\<close> numbers the items of the
  list in their original order.
\<close>

definition before :: "('a \<Rightarrow> fl) \<Rightarrow> ('a \<Rightarrow> nat) \<Rightarrow> 'a \<Rightarrow> 'a \<Rightarrow> bool" where
  "before key pos a b \<longleftrightarrow>
     fl_less (key b) (key a) \<or> (key a = key b \<and> pos a < pos b)"

lemma before_trans_Fin:
  "key a \<noteq> NaN \<Longrightarrow> key b \<noteq> NaN \<Longrightarrow> key c \<noteq> NaN \<Longrightarrow>
   before key pos a b \<Longrightarrow> before key pos b c \<Longrightarrow> before key pos a c"
  by (cases "key a"; cases "key b"; cases "key c") (auto simp: before_def)

lemma insert_desc_before:
  assumes "sorted_wrt (before key pos) ys"
    and "\<forall>z \<in> set ys. pos x < pos z"
    and "key x \<noteq> NaN" "\<forall>z \<in> set ys. key z \<noteq> NaN"
  shows "sorted_wrt (before key pos) (insert_desc key x ys)"
  using assms
proof (induction ys)
  case Nil
  then show ?case by simp
next
  case (Cons y ys)
  show ?case
  proof (cases "fl_less (key x) (key y)")
    case True
    then have "before key pos y x" by (simp add: before_def)
    moreover have "sorted_wrt (before key pos) (insert_desc key x ys)"
      using Cons by simp
    ultimately show ?thesis using True Cons.prems(1) by auto
  next
    case False
    obtain kx ky where k: "key x = Fin kx" "key y = Fin ky"
      using Cons.prems(3,4) by (cases "key x"; cases "key y") auto
    have xy: "before key pos x y"
      using False k Cons.prems(2) by (auto simp: before_def)
    have "before key pos x z" if "z \<in> set ys" for z
    proof -
      have "before key pos y z" using Cons.prems(1) that by simp
      with xy show ?thesis
        using before_trans_Fin [of key x y z pos] Cons.prems(3,4) that by simp
    qed
    with xy False Cons.prems(1) show ?thesis by auto
  qed
qed

lemma sorted_reverse_before:
  assumes "sorted_wrt (\<lambda>a b. pos a < pos b) xs" and "\<forall>x \<in> set xs. key x \<noteq> NaN"
  shows "sorted_wrt (before key pos) (sorted_reverse key xs)"
  using assms
proof (induction xs)
  case Nil
  then show ?case by simp
next
  case (Cons x xs)
  then have "sorted_wrt (before key pos) (sorted_reverse key xs)" by simp
  then have "sorted_wrt (before key pos) (insert_desc key x (sorted_reverse key xs))"
    using Cons.prems by (intro insert_desc_before) auto
  then show ?case by (simp add: sorted_reverse_Cons)
qed

text \<open>Descending order alone, where the items carry no numbering.\<close>

lemma insert_desc_descending:
  assumes "sorted_wrt (\<lambda>a b. \<not> fl_less (key a) (key b)) ys"
    and "key x \<noteq> NaN" "\<forall>z \<in> set ys. key z \<noteq> NaN"
  shows "sorted_wrt (\<lambda>a b. \<not> fl_less (key a) (key b)) (insert_desc key x ys)"
  using assms
proof (induction ys)
  case Nil
  then show ?case by simp
next
  case (Cons y ys)
  show ?case
  proof (cases "fl_less (key x) (key y)")
    case True
    obtain kx ky where k: "key x = Fin kx" "key y = Fin ky"
      using Cons.prems(2,3) by (cases "key x"; cases "key y") auto
    have "\<not> fl_less (key y) (key x)" using True k by simp
    moreover have "sorted_wrt (\<lambda>a b. \<not> fl_less (key a) (key b)) (insert_desc key x ys)"
      using Cons by simp
    ultimately show ?thesis using True Cons.prems(1) by auto
  next
    case False
    obtain kx ky where k: "key x = Fin kx" "key y = Fin ky"
      using Cons.prems(2,3) by (cases "key x"; cases "key y") auto
    have "\<not> fl_less (key x) (key z)" if zin: "z \<in> set ys" for z
    proof -
      obtain kz where kz: "key z = Fin kz"
        using Cons.prems(3) zin by (cases "key z") auto
      have "\<not> fl_less (key y) (key z)" using Cons.prems(1) zin by simp
      with False k kz show ?thesis by simp
    qed
    with False Cons.prems(1) show ?thesis by auto
  qed
qed

lemma sorted_reverse_descending:
  assumes "\<forall>x \<in> set xs. key x \<noteq> NaN"
  shows "sorted_wrt (\<lambda>a b. \<not> fl_less (key a) (key b)) (sorted_reverse key xs)"
  using assms
proof (induction xs)
  case Nil
  then show ?case by simp
next
  case (Cons x xs)
  then show ?case
    by (simp add: sorted_reverse_Cons insert_desc_descending)
qed

section \<open>The query vector\<close>

lemma first_value_error: "first_value xs = Inl e \<Longrightarrow> e = IndexError"
  by (cases xs) (auto simp: first_value_def)

lemma first_value_Inl_iff: "first_value xs = Inl IndexError \<longleftrightarrow> xs = []"
  by (cases xs) (auto simp: first_value_def)

lemma movie_id_of_unresolved:
  "movie_id_of movies t = Inl IndexError \<longleftrightarrow> t \<notin> snd ` set movies"
  by (auto simp: movie_id_of_def first_value_Inl_iff filter_empty_conv image_iff)

lemma movie_id_of_resolved:
  "t \<in> snd ` set movies \<Longrightarrow> \<exists>i. movie_id_of movies t = Inr i \<and> (i, t) \<in> set movies"
proof -
  assume "t \<in> snd ` set movies"
  then have ne: "filter (\<lambda>(i, t'). t' = t) movies \<noteq> []"
    by (auto simp: filter_empty_conv image_iff)
  then obtain a rest where f: "filter (\<lambda>(i, t'). t' = t) movies = a # rest"
    by (cases "filter (\<lambda>(i, t'). t' = t) movies") auto
  then have "a \<in> set (filter (\<lambda>(i, t'). t' = t) movies)" by simp
  then have "a \<in> set movies" "snd a = t" by auto
  then have "(fst a, t) \<in> set movies" by (cases a) auto
  moreover have "movie_id_of movies t = Inr (fst a)"
    by (simp add: movie_id_of_def first_value_def f)
  ultimately show ?thesis by blast
qed

lemma rating_of_listed:
  "t \<in> fst ` set user_ratings \<Longrightarrow> \<exists>r. rating_of user_ratings t = Inr r"
proof -
  assume "t \<in> fst ` set user_ratings"
  then have "filter (\<lambda>(t', r). t' = t) user_ratings \<noteq> []"
    by (auto simp: filter_empty_conv image_iff)
  then show ?thesis
    by (cases "filter (\<lambda>(t', r). t' = t) user_ratings")
       (auto simp: rating_of_def first_value_def)
qed

lemma rating_of_keyed:
  assumes "distinct (map fst user_ratings)" "(t, r) \<in> set user_ratings"
  shows "rating_of user_ratings t = Inr r"
  using assms
proof (induction user_ratings)
  case Nil
  then show ?case by simp
next
  case (Cons a ur)
  show ?case
  proof (cases "fst a = t")
    case True
    then have "t \<notin> fst ` set ur" using Cons.prems(1) by auto
    then have "(t, r) \<notin> set ur" by (auto simp: image_iff)
    then have "a = (t, r)" using Cons.prems(2) by auto
    then show ?thesis by (simp add: rating_of_def first_value_def)
  next
    case False
    then have "(t, r) \<in> set ur" using Cons.prems(2) by auto
    then have "rating_of ur t = Inr r" using Cons by simp
    with False show ?thesis
      by (cases a) (auto simp: rating_of_def)
  qed
qed

subsection \<open>A title that does not resolve\<close>

lemma rate_loop_error: "rate_loop movies ur ts row = Inl e \<Longrightarrow> e = IndexError"
proof (induction ts arbitrary: row)
  case Nil
  then show ?case by simp
next
  case (Cons t ts)
  then show ?case
    by (auto simp: movie_id_of_def rating_of_def split: sum.splits dest: first_value_error)
qed

lemma rate_loop_unresolved:
  "\<exists>t \<in> set ts. t \<notin> snd ` set movies \<Longrightarrow> \<exists>e. rate_loop movies ur ts row = Inl e"
proof (induction ts arbitrary: row)
  case Nil
  then show ?case by simp
next
  case (Cons t ts)
  show ?case
  proof (cases "t \<in> snd ` set movies")
    case False
    then have "movie_id_of movies t = Inl IndexError"
      by (simp add: movie_id_of_unresolved)
    then show ?thesis by simp
  next
    case True
    with Cons.prems have "\<exists>t \<in> set ts. t \<notin> snd ` set movies" by auto
    then have "\<exists>e. rate_loop movies ur ts row' = Inl e" for row'
      by (rule Cons.IH)
    then show ?thesis by (auto split: sum.splits)
  qed
qed

lemma user_ratings_row_unresolved:
  assumes "length (columns utility) = MAX_MOVIE_ID"
    and "\<exists>t \<in> set (map fst ur). t \<notin> snd ` set movies"
  shows "user_ratings_row ur utility movies = Inl IndexError"
proof -
  obtain e where "rate_loop movies ur (map fst ur)
      (zip (columns utility) (replicate MAX_MOVIE_ID (Fin 0))) = Inl e"
    using rate_loop_unresolved [OF assms(2)] by blast
  moreover from this have "e = IndexError" by (rule rate_loop_error)
  ultimately show ?thesis
    using assms(1) by (simp add: user_ratings_row_def Series_def)
qed

lemma recommend_movies_unresolved:
  assumes "length (columns utility) = MAX_MOVIE_ID"
    and "\<exists>t \<in> set (map fst ur). t \<notin> snd ` set movies"
  shows "recommend_movies ur utility movies = ([], Some IndexError)"
  using user_ratings_row_unresolved [OF assms]
  by (simp add: recommend_movies_def movie_ids_rec_def)

text \<open>
  Claim C3, as the code has it. With a utility matrix of the expected width, a user rating
  entry whose title is not in the catalog makes the look-up of its movie id raise
  \<open>IndexError\<close> (a \<open>LookupError\<close> that does not name the title); the exception ends the
  construction of the query vector and the whole of \<open>recommend_movies\<close>: no entry is
  processed further and nothing is written.
\<close>

theorem unresolved_title_aborts:
  assumes "length (columns utility) = MAX_MOVIE_ID"
    and "(t, r) \<in> set ur" and "t \<notin> snd ` set movies"
  shows "movie_id_of movies t = Inl IndexError \<and>
         user_ratings_row ur utility movies = Inl IndexError \<and>
         recommend_movies ur utility movies = ([], Some IndexError)"
proof -
  have "\<exists>t \<in> set (map fst ur). t \<notin> snd ` set movies"
    using assms(2,3) by force
  with assms(1) show ?thesis
    by (simp add: movie_id_of_unresolved [THEN iffD2, OF assms(3)]
        user_ratings_row_unresolved recommend_movies_unresolved)
qed

lemma length_columns_population: "length (columns population) = MAX_MOVIE_ID"
  by (simp add: population_def)

theorem unresolved_title_aborts_witness:
  "length (columns population) = MAX_MOVIE_ID \<and>
   (''Heat (1995)'', Fin 4) \<in> set [(''Jumanji (1995)'', Fin 2), (''Heat (1995)'', Fin 4)] \<and>
   ''Heat (1995)'' \<notin> snd ` set catalog \<and>
   movie_id_of catalog ''Heat (1995)'' = Inl IndexError \<and>
   recommend_movies [(''Jumanji (1995)'', Fin 2), (''Heat (1995)'', Fin 4)] population catalog
     = ([], Some IndexError)"
proof -
  have a: "(''Heat (1995)'', Fin 4) \<in> set [(''Jumanji (1995)'', Fin 2), (''Heat (1995)'', Fin 4)]"
    by simp
  have b: "''Heat (1995)'' \<notin> snd ` set catalog"
    by (simp add: catalog_def)
  show ?thesis
    using unresolved_title_aborts [OF length_columns_population a b] a b
    by (simp add: length_columns_population)
qed

text \<open>
  The claim as it is written fails: of the two entries below the second one resolves,
  yet the exception of the first one ends the request; no query vector exists in which
  the second entry would have been processed.
\<close>

theorem unresolved_title_counterexample:
  "user_ratings_row [(''Heat (1995)'', Fin 4), (''Toy Story (1995)'', Fin 3)] population catalog
     = Inl IndexError \<and>
   movie_id_of catalog ''Toy Story (1995)'' = Inr 0 \<and>
   recommend_movies [(''Heat (1995)'', Fin 4), (''Toy Story (1995)'', Fin 3)] population catalog
     = ([], Some IndexError)"
proof -
  let ?ur = "[(''Heat (1995)'', Fin 4), (''Toy Story (1995)'', Fin 3)]"
  have "\<exists>t \<in> set (map fst ?ur). t \<notin> snd ` set catalog"
    by (simp add: catalog_def)
  then have "user_ratings_row ?ur population catalog = Inl IndexError"
    "recommend_movies ?ur population catalog = ([], Some IndexError)"
    using length_columns_population
    by (simp_all only: user_ratings_row_unresolved recommend_movies_unresolved)
  moreover have "movie_id_of catalog ''Toy Story (1995)'' = Inr 0"
    by (simp add: movie_id_of_def catalog_def first_value_def)
  ultimately show ?thesis by simp
qed

subsection \<open>Titles that all resolve\<close>

lemma series_setitem_present:
  "k \<in> fst ` set s \<Longrightarrow>
   series_setitem s k v = map (\<lambda>(l, x). (l, if l = k then v else x)) s"
  by (auto simp: series_setitem_def)

lemma map_fst_setitem_present:
  "k \<in> fst ` set s \<Longrightarrow> map fst (series_setitem s k v) = map fst s"
  by (simp add: series_setitem_present comp_def case_prod_unfold)

lemma nth_setitem_present:
  assumes "k \<in> fst ` set s" "j < length s"
  shows "snd (series_setitem s k v ! j) = (if fst (s ! j) = k then v else snd (s ! j))"
  using assms by (simp add: series_setitem_present case_prod_unfold)

text \<open>
  The titles of the list that resolve to a given label, in the order of the list: the
  last of them decides the value stored under the label.
\<close>

definition resolving :: "movies \<Rightarrow> string list \<Rightarrow> int \<Rightarrow> string list" where
  "resolving movies ts l = filter (\<lambda>t. movie_id_of movies t = Inr l) ts"

lemma resolving_Cons:
  "resolving movies (t # ts) l =
     (if movie_id_of movies t = Inr l then t # resolving movies ts l else resolving movies ts l)"
  by (simp add: resolving_def)

lemma rate_loop_values:
  assumes "\<forall>t \<in> set ts. \<exists>i r. movie_id_of movies t = Inr i \<and> i \<in> fst ` set row \<and>
             rating_of ur t = Inr r"
  shows "\<exists>row'. rate_loop movies ur ts row = Inr row' \<and> map fst row' = map fst row \<and>
           (\<forall>j < length row. snd (row' ! j) =
              (case resolving movies ts (fst (row ! j)) of
                 [] \<Rightarrow> snd (row ! j)
               | t # rest \<Rightarrow> projr (rating_of ur (last (t # rest)))))"
  using assms
proof (induction ts arbitrary: row)
  case Nil
  then show ?case by (simp add: resolving_def)
next
  case (Cons t ts)
  obtain i r where t: "movie_id_of movies t = Inr i" "i \<in> fst ` set row"
    "rating_of ur t = Inr r"
    using Cons.prems by auto
  let ?row1 = "series_setitem row i r"
  have labels1: "map fst ?row1 = map fst row"
    using t(2) by (rule map_fst_setitem_present)
  then have set1: "fst ` set ?row1 = fst ` set row"
    by (metis set_map)
  have len1: "length ?row1 = length row"
    using labels1 by (metis length_map)
  have "\<forall>t \<in> set ts. \<exists>i r. movie_id_of movies t = Inr i \<and> i \<in> fst ` set ?row1 \<and>
          rating_of ur t = Inr r"
    using Cons.prems unfolding set1 by simp
  from Cons.IH [OF this] obtain row' where
    run: "rate_loop movies ur ts ?row1 = Inr row'"
    and labels: "map fst row' = map fst ?row1"
    and vals: "\<forall>j < length ?row1. snd (row' ! j) =
              (case resolving movies ts (fst (?row1 ! j)) of
                 [] \<Rightarrow> snd (?row1 ! j)
               | t # rest \<Rightarrow> projr (rating_of ur (last (t # rest))))"
    by blast
  have "rate_loop movies ur (t # ts) row = Inr row'"
    using t run by simp
  moreover have "map fst row' = map fst row"
    using labels labels1 by simp
  moreover have "snd (row' ! j) =
              (case resolving movies (t # ts) (fst (row ! j)) of
                 [] \<Rightarrow> snd (row ! j)
               | t # rest \<Rightarrow> projr (rating_of ur (last (t # rest))))"
    if j: "j < length row" for j
  proof -
    have f: "fst (?row1 ! j) = fst (row ! j)"
      using labels1 j len1 by (metis nth_map)
    have s: "snd (?row1 ! j) = (if fst (row ! j) = i then r else snd (row ! j))"
      using t(2) j by (rule nth_setitem_present)
    have v: "snd (row' ! j) =
              (case resolving movies ts (fst (row ! j)) of
                 [] \<Rightarrow> snd (?row1 ! j)
               | t # rest \<Rightarrow> projr (rating_of ur (last (t # rest))))"
      using vals j len1 f by simp
    show ?thesis
    proof (cases "resolving movies ts (fst (row ! j))")
      case Nil
      then show ?thesis
        using v s t by (auto simp: resolving_Cons)
    next
      case (Cons t' rest)
      then show ?thesis
        using v by (simp add: resolving_Cons)
    qed
  qed
  ultimately show ?case by blast
qed

lemma filter_eq_single: "distinct xs \<Longrightarrow> x \<in> set xs \<Longrightarrow> filter (\<lambda>y. y = x) xs = [x]"
  by (induction xs) (auto simp: filter_empty_conv)

lemma resolving_keyed:
  assumes "distinct ts" "inj_on (movie_id_of movies) (set ts)"
    and "t \<in> set ts" "movie_id_of movies t = Inr l"
  shows "resolving movies ts l = [t]"
proof -
  have "(movie_id_of movies t' = Inr l) = (t' = t)" if "t' \<in> set ts" for t'
    using assms(2,3,4) that by (metis inj_onD)
  then have "filter (\<lambda>t'. movie_id_of movies t' = Inr l) ts = filter (\<lambda>t'. t' = t) ts"
    by (intro filter_cong refl)
  then show ?thesis
    using assms(1,3) by (simp add: resolving_def filter_eq_single)
qed

lemma user_ratings_row_values:
  assumes width: "length (columns utility) = MAX_MOVIE_ID"
    and resolve: "\<forall>t \<in> fst ` set ur. \<exists>i \<in> set (columns utility). movie_id_of movies t = Inr i"
  shows "\<exists>y. user_ratings_row ur utility movies = Inr (zip (columns utility) y) \<and>
           length y = length (columns utility) \<and>
           (\<forall>j < length (columns utility).
              y ! j = (case resolving movies (map fst ur) (columns utility ! j) of
                         [] \<Rightarrow> Fin 0
                       | t # rest \<Rightarrow> projr (rating_of ur (last (t # rest)))))"
proof -
  let ?cols = "columns utility"
  let ?row = "zip ?cols (replicate MAX_MOVIE_ID (Fin 0))"
  have len: "length ?row = length ?cols" using width by simp
  have fst_row: "map fst ?row = ?cols" using width by (simp add: map_fst_zip)
  then have set_row: "fst ` set ?row = set ?cols" by (metis set_map)
  have "\<forall>t \<in> set (map fst ur). \<exists>i r. movie_id_of movies t = Inr i \<and> i \<in> fst ` set ?row \<and>
          rating_of ur t = Inr r"
  proof
    fix t assume "t \<in> set (map fst ur)"
    then have t: "t \<in> fst ` set ur" by simp
    then obtain i where "i \<in> set ?cols" "movie_id_of movies t = Inr i"
      using resolve by blast
    moreover obtain r where "rating_of ur t = Inr r"
      using rating_of_listed [OF t] by blast
    ultimately show "\<exists>i r. movie_id_of movies t = Inr i \<and> i \<in> fst ` set ?row \<and>
          rating_of ur t = Inr r"
      unfolding set_row by blast
  qed
  from rate_loop_values [OF this] obtain row' where
    run: "rate_loop movies ur (map fst ur) ?row = Inr row'"
    and labels: "map fst row' = map fst ?row"
    and vals: "\<forall>j < length ?row. snd (row' ! j) =
              (case resolving movies (map fst ur) (fst (?row ! j)) of
                 [] \<Rightarrow> snd (?row ! j)
               | t # rest \<Rightarrow> projr (rating_of ur (last (t # rest))))"
    by blast
  let ?y = "map snd row'"
  have len': "length row' = length ?cols"
    using labels fst_row by (metis length_map)
  have "row' = zip (map fst row') ?y" by (simp add: zip_map_fst_snd)
  then have row': "row' = zip ?cols ?y" using labels fst_row by simp
  have "user_ratings_row ur utility movies = Inr (zip ?cols ?y)"
    using run row' width by (simp add: user_ratings_row_def Series_def)
  moreover have "length ?y = length ?cols" using len' by simp
  moreover have "?y ! j = (case resolving movies (map fst ur) (?cols ! j) of
                         [] \<Rightarrow> Fin 0
                       | t # rest \<Rightarrow> projr (rating_of ur (last (t # rest))))"
    if j: "j < length ?cols" for j
  proof -
    have a: "fst (?row ! j) = ?cols ! j" and b: "snd (?row ! j) = Fin 0"
      using j width by simp_all
    have c: "?y ! j = snd (row' ! j)" using j len' by simp
    have jl: "j < length ?row" using j len by (simp only:)
    show ?thesis
      using vals [rule_format, OF jl] unfolding a b c .
  qed
  ultimately show ?thesis by blast
qed

text \<open>
  Claim C9, as the code has it. With a utility matrix of the 14076 columns the code
  requires and user ratings whose titles all resolve to movie ids that label a column,
  the query vector carries the column labels of the utility matrix in their order, one
  value per column. At a column that no title of the user resolves to it holds 0;
  otherwise it holds the rating stored for the last title that resolves to the column.
  With ratings keyed by title and distinct titles resolving to distinct ids, that is:
  each entry's rating, as stored and not centered, at the column of its movie.
\<close>

theorem user_ratings_row_aligned:
  assumes "length (columns utility) = MAX_MOVIE_ID"
    and "\<forall>t \<in> fst ` set ur. \<exists>i \<in> set (columns utility). movie_id_of movies t = Inr i"
  shows "\<exists>y. user_ratings_row ur utility movies = Inr (zip (columns utility) y) \<and>
           length y = length (columns utility) \<and>
           (\<forall>j < length (columns utility).
              y ! j = (case resolving movies (map fst ur) (columns utility ! j) of
                         [] \<Rightarrow> Fin 0
                       | t # rest \<Rightarrow> projr (rating_of ur (last (t # rest))))) \<and>
           (distinct (map fst ur) \<and> inj_on (movie_id_of movies) (fst ` set ur) \<longrightarrow>
              (\<forall>j < length (columns utility). \<forall>t r.
                 (t, r) \<in> set ur \<and> movie_id_of movies t = Inr (columns utility ! j) \<longrightarrow>
                 y ! j = r))"
proof -
  obtain y where y: "user_ratings_row ur utility movies = Inr (zip (columns utility) y)"
    "length y = length (columns utility)"
    and v: "\<forall>j < length (columns utility).
              y ! j = (case resolving movies (map fst ur) (columns utility ! j) of
                         [] \<Rightarrow> Fin 0
                       | t # rest \<Rightarrow> projr (rating_of ur (last (t # rest))))"
    using user_ratings_row_values [OF assms] by blast
  have "y ! j = r"
    if k: "distinct (map fst ur)" "inj_on (movie_id_of movies) (fst ` set ur)"
      and j: "j < length (columns utility)"
      and e: "(t, r) \<in> set ur" "movie_id_of movies t = Inr (columns utility ! j)"
    for j t r
  proof -
    have "t \<in> set (map fst ur)" using e(1) by force
    then have "resolving movies (map fst ur) (columns utility ! j) = [t]"
      using k e(2) by (intro resolving_keyed) simp_all
    moreover have "rating_of ur t = Inr r"
      using k(1) e(1) by (rule rating_of_keyed)
    ultimately show ?thesis using v j by simp
  qed
  with y v show ?thesis by blast
qed

lemma nth_columns_population:
  "j < MAX_MOVIE_ID \<Longrightarrow> columns population ! j = int j"
  by (simp add: population_def)

lemma set_columns_population: "set (columns population) = int ` {0..<MAX_MOVIE_ID}"
  by (simp add: population_def)

lemma movie_id_of_catalog:
  "movie_id_of catalog ''Toy Story (1995)'' = Inr 0"
  "movie_id_of catalog ''Jumanji (1995)'' = Inr 1"
  by (simp_all add: movie_id_of_def catalog_def first_value_def)

text \<open>
  The user rates Toy Story (movie 0) with 5 and Jumanji (movie 1) with 3: the query
  vector holds 5, 3 and then 0.
\<close>

theorem user_ratings_row_aligned_witness:
  "length (columns population) = MAX_MOVIE_ID \<and>
   (\<exists>y. user_ratings_row [(''Toy Story (1995)'', Fin 5), (''Jumanji (1995)'', Fin 3)]
           population catalog = Inr (zip (columns population) y) \<and>
        length y = MAX_MOVIE_ID \<and> y ! 0 = Fin 5 \<and> y ! 1 = Fin 3 \<and> y ! 2 = Fin 0)"
proof -
  let ?ur = "[(''Toy Story (1995)'', Fin 5), (''Jumanji (1995)'', Fin 3)]"
  have w: "length (columns population) = MAX_MOVIE_ID"
    by (rule length_columns_population)
  have r: "\<forall>t \<in> fst ` set ?ur. \<exists>i \<in> set (columns population). movie_id_of catalog t = Inr i"
    by (simp add: movie_id_of_catalog set_columns_population MAX_MOVIE_ID_def)
  obtain y where y: "user_ratings_row ?ur population catalog = Inr (zip (columns population) y)"
    "length y = length (columns population)"
    and v: "\<forall>j < length (columns population).
              y ! j = (case resolving catalog (map fst ?ur) (columns population ! j) of
                         [] \<Rightarrow> Fin 0
                       | t # rest \<Rightarrow> projr (rating_of ?ur (last (t # rest))))"
    using user_ratings_row_aligned [OF w r] by blast
  have c: "columns population ! 0 = 0" "columns population ! 1 = 1" "columns population ! 2 = 2"
    by (simp_all add: nth_columns_population MAX_MOVIE_ID_def)
  have l: "0 < length (columns population)" "1 < length (columns population)"
    "2 < length (columns population)"
    by (simp_all add: w MAX_MOVIE_ID_def)
  have "y ! 0 = Fin 5"
    using v [rule_format, OF l(1), unfolded c]
    by (simp add: resolving_def movie_id_of_catalog rating_of_def first_value_def)
  moreover have "y ! 1 = Fin 3"
    using v [rule_format, OF l(2), unfolded c]
    by (simp add: resolving_def movie_id_of_catalog rating_of_def first_value_def)
  moreover have "y ! 2 = Fin 0"
    using v [rule_format, OF l(3), unfolded c]
    by (simp add: resolving_def movie_id_of_catalog)
  ultimately show ?thesis using y w by auto
qed

lemma rows_width0: "length (cells population ! 0) = MAX_MOVIE_ID"
  by (simp add: population_def MAX_USER_ID_def MAX_MOVIE_ID_def)

lemma correlations_loop_mismatch:
  assumes "0 < n" "0 < length (cells u)" "length (cells u ! 0) \<noteq> length y"
  shows "correlations_loop u y [0..<n] = Inl ValueError"
proof -
  have "similarity (cells u ! 0) y = Inl ValueError"
    using assms(3) by (simp add: similarity_def cosine_def)
  moreover have "[0..<n] = 0 # [1..<n]"
    using assms(1) by (simp add: upt_conv_Cons)
  ultimately show ?thesis
    using assms(2) by (simp add: iloc_def)
qed

text \<open>
  The claim as it is written fails when a title resolves to a movie id that labels no
  column: the catalog below names the movie 20000, the utility matrix has the columns 0
  to 14075. The assignment under the absent label makes the series grow: the query
  vector has 14077 entries, its labels are not those of the utility matrix, and the
  first similarity computation refuses the two lengths with \<open>ValueError\<close>.
\<close>

theorem user_ratings_row_counterexample:
  "movie_id_of [(20000, ''Heat (1995)'')] ''Heat (1995)'' = Inr 20000 \<and>
   user_ratings_row [(''Heat (1995)'', Fin 4)] population [(20000, ''Heat (1995)'')]
     = Inr (zip (columns population) (replicate MAX_MOVIE_ID (Fin 0)) @ [(20000, Fin 4)]) \<and>
   length (zip (columns population) (replicate MAX_MOVIE_ID (Fin 0)) @ [(20000, Fin 4)])
     = Suc (length (columns population)) \<and>
   map fst (zip (columns population) (replicate MAX_MOVIE_ID (Fin 0)) @ [(20000, Fin 4)])
     \<noteq> columns population \<and>
   recommend_movies [(''Heat (1995)'', Fin 4)] population [(20000, ''Heat (1995)'')]
     = ([], Some ValueError)"
proof -
  let ?m = "[(20000, ''Heat (1995)'')] :: movies"
  let ?ur = "[(''Heat (1995)'', Fin 4)] :: user_ratings"
  let ?row = "zip (columns population) (replicate MAX_MOVIE_ID (Fin 0))"
  let ?row' = "?row @ [(20000, Fin 4)]"
  have w: "length (columns population) = MAX_MOVIE_ID"
    by (rule length_columns_population)
  have id: "movie_id_of ?m ''Heat (1995)'' = Inr 20000"
    by (simp add: movie_id_of_def first_value_def)
  have rt: "rating_of ?ur ''Heat (1995)'' = Inr (Fin 4)"
    by (simp add: rating_of_def first_value_def)
  have labels: "map fst ?row = columns population"
    using w by (simp add: map_fst_zip)
  have "(20000 :: int) \<notin> int ` {0..<MAX_MOVIE_ID}"
    by (auto simp: MAX_MOVIE_ID_def)
  then have absent: "20000 \<notin> set (map fst ?row)"
    unfolding labels set_columns_population .
  then have grow: "series_setitem ?row 20000 (Fin 4) = ?row'"
    by (simp only: series_setitem_def if_False)
  have row: "user_ratings_row ?ur population ?m = Inr ?row'"
    using w by (simp add: user_ratings_row_def Series_def id rt grow)
  have len: "length ?row' = Suc (length (columns population))"
    using w by simp
  have "length (map fst ?row') \<noteq> length (columns population)"
    using len by simp
  then have ne: "map fst ?row' \<noteq> columns population"
    by metis
  have mis: "length (cells population ! 0) \<noteq> length (map snd ?row')"
    using len rows_width0 w by simp
  have pos: "0 < MAX_USER_ID" "0 < length (cells population)"
    by (simp_all add: population_def MAX_USER_ID_def)
  have "correlations_loop population (map snd ?row') [0..<MAX_USER_ID] = Inl ValueError"
    using pos mis by (rule correlations_loop_mismatch)
  then have "relevant_idx population (map snd ?row') = Inl ValueError"
    by (simp add: relevant_idx_def)
  then have "recommend_movies ?ur population ?m = ([], Some ValueError)"
    by (simp add: recommend_movies_def movie_ids_rec_def row)
  with id row len ne show ?thesis by blast
qed

section \<open>The closest users\<close>

lemma similarity_error: "similarity x y = Inl e \<Longrightarrow> e = ValueError \<and> length x \<noteq> length y"
  by (auto simp: similarity_def cosine_def Let_def split: if_splits sum.splits)

lemma similarity_total: "length x = length y \<Longrightarrow> \<exists>s. similarity x y = Inr s"
  by (auto simp: similarity_def cosine_def Let_def)

lemma correlations_loop_Inr:
  assumes "\<forall>i \<in> set is. i < length (cells u) \<and> length (cells u ! i) = length y"
  shows "correlations_loop u y is = Inr (map (\<lambda>i. (i, projr (similarity (cells u ! i) y))) is)"
  using assms
proof (induction "is")
  case Nil
  then show ?case by simp
next
  case (Cons i "is")
  then obtain s where "similarity (cells u ! i) y = Inr s"
    using similarity_total [of "cells u ! i" y] by auto
  with Cons show ?case by (simp add: iloc_def)
qed

lemma correlations_loop_short:
  assumes "\<forall>r \<in> set (cells u). length r = length y"
    and "\<exists>i \<in> set is. length (cells u) \<le> i"
  shows "correlations_loop u y is = Inl IndexError"
  using assms(2)
proof (induction "is")
  case Nil
  then show ?case by simp
next
  case (Cons i "is")
  show ?case
  proof (cases "i < length (cells u)")
    case False
    then show ?thesis by (simp add: iloc_def)
  next
    case True
    then have "length (cells u ! i) = length y" using assms(1) by simp
    then obtain s where s: "similarity (cells u ! i) y = Inr s"
      using similarity_total by blast
    have "correlations_loop u y is = Inl IndexError"
      using Cons True by auto
    with True s show ?thesis by (simp add: iloc_def)
  qed
qed

lemma relevant_idx_short:
  assumes "\<forall>r \<in> set (cells u). length r = length y" and "length (cells u) < MAX_USER_ID"
  shows "relevant_idx u y = Inl IndexError"
proof -
  have "\<exists>i \<in> set [0..<MAX_USER_ID]. length (cells u) \<le> i"
    using assms(2) by (intro bexI [of _ "length (cells u)"]) simp_all
  with assms(1) have "correlations_loop u y [0..<MAX_USER_ID] = Inl IndexError"
    by (rule correlations_loop_short)
  then show ?thesis by (simp add: relevant_idx_def)
qed

text \<open>The scores of the first \<open>n\<close> rows when no vector has zero magnitude.\<close>

lemma correlations_loop_Fin:
  assumes "\<forall>i < n. i < length (cells u) \<and> length (cells u ! i) = length w \<and>
             magnitude (cells u ! i) \<noteq> 0"
    and "magnitude w \<noteq> 0"
  shows "correlations_loop u (map Fin w) [0..<n]
           = Inr (map (\<lambda>i. (i, Fin (cos_sim (cells u ! i) w))) [0..<n])"
proof -
  have "correlations_loop u (map Fin w) [0..<n]
          = Inr (map (\<lambda>i. (i, projr (similarity (cells u ! i) (map Fin w)))) [0..<n])"
    using assms(1) by (intro correlations_loop_Inr) simp
  moreover have "projr (similarity (cells u ! i) (map Fin w)) = Fin (cos_sim (cells u ! i) w)"
    if "i \<in> set [0..<n]" for i
    using that assms by (simp add: similarity_Fin)
  ultimately show ?thesis by (simp cong: map_cong)
qed

lemma sorted_wrt_fst_upt: "sorted_wrt (\<lambda>a b. fst a < fst b) (map (\<lambda>i. (i, f i)) [0..<n])"
  by (simp add: sorted_wrt_map sorted_wrt_iff_nth_less)

lemma relevant_idx_sorted:
  assumes rows: "\<forall>i < MAX_USER_ID. i < length (cells u) \<and> length (cells u ! i) = length w \<and>
             magnitude (cells u ! i) \<noteq> 0"
    and w: "magnitude w \<noteq> 0"
  shows "\<exists>L. relevant_idx u (map Fin w) = Inr (map fst (take 20 L)) \<and>
           length L = MAX_USER_ID \<and>
           set L = (\<lambda>i. (i, Fin (cos_sim (cells u ! i) w))) ` {0..<MAX_USER_ID} \<and>
           distinct (map fst L) \<and>
           sorted_wrt (before snd fst) L"
proof -
  let ?c = "map (\<lambda>i. (i, Fin (cos_sim (cells u ! i) w))) [0..<MAX_USER_ID]"
  let ?L = "sorted_reverse snd ?c"
  have c: "correlations_loop u (map Fin w) [0..<MAX_USER_ID] = Inr ?c"
    using rows w by (rule correlations_loop_Fin)
  have "relevant_idx u (map Fin w) = Inr (map fst (take 20 ?L))"
    by (simp add: relevant_idx_def c)
  moreover have "length ?L = MAX_USER_ID" by simp
  moreover have "set ?L = (\<lambda>i. (i, Fin (cos_sim (cells u ! i) w))) ` {0..<MAX_USER_ID}"
    by simp
  moreover have "distinct (map fst ?L)"
    by (simp add: comp_def)
  moreover have "sorted_wrt (before snd fst) ?L"
    by (rule sorted_reverse_before) (auto simp: sorted_wrt_fst_upt)
  ultimately show ?thesis by blast
qed


lemma cells_population_row:
  "i < MAX_USER_ID \<Longrightarrow> cells population ! i = 1 # - 1 # replicate (MAX_MOVIE_ID - 2) 0"
  by (simp add: population_def)

lemma length_cells_population: "length (cells population) = MAX_USER_ID"
  by (simp add: population_def)

lemma length_population_row:
  "\<forall>r \<in> set (cells population). length r = MAX_MOVIE_ID"
  by (simp add: population_def MAX_MOVIE_ID_def)

lemma magnitude_population_row:
  "i < MAX_USER_ID \<Longrightarrow> magnitude (cells population ! i) \<noteq> 0"
  by (simp add: cells_population_row magnitude_zero_iff)



section \<open>The ranking of the columns\<close>

lemma map_fst_labelled_columns [simp]: "map fst (labelled_columns cols rows) = cols"
  by (simp add: labelled_columns_def comp_def map_nth)

lemma in_labelled_columns:
  "a \<in> set (labelled_columns cols rows) \<longleftrightarrow>
     (\<exists>j < length cols. a = (cols ! j, map (\<lambda>r. r ! j) rows))"
  by (auto simp: labelled_columns_def)

lemma present_replace_zero: "present (map replace_zero c) = filter (\<lambda>v. v \<noteq> 0) c"
  by (induction c) (auto simp: replace_zero_def)

lemma list_ex_replace_zero:
  "list_ex (\<lambda>v. v \<noteq> NaN) (map replace_zero c) \<longleftrightarrow> (\<exists>v \<in> set c. v \<noteq> 0)"
  by (induction c) (auto simp: replace_zero_def)

lemma present_none_NaN: "present c = [] \<Longrightarrow> v \<in> set c \<Longrightarrow> v = NaN"
  by (induction c rule: present.induct) auto

lemma nanmean_replace_zero:
  "\<exists>v \<in> set c. v \<noteq> 0 \<Longrightarrow> nanmean (map replace_zero c) = Fin (nonzero_mean c)"
  by (auto simp: nanmean_def present_replace_zero nonzero_mean_def Let_def filter_empty_conv)

text \<open>The columns kept, each with the mean of its cells, before sorting.\<close>

definition kept_means :: "int list \<Rightarrow> real list list \<Rightarrow> (int \<times> fl) list" where
  "kept_means cols rows =
     map (\<lambda>(l, c). (l, nanmean c))
       (dropna_all (labelled_columns cols (map (map replace_zero) rows)))"

lemma replaced_column:
  assumes "\<forall>r \<in> set rows. length r = n" "j < n"
  shows "map (\<lambda>r. r ! j) (map (map replace_zero) rows)
           = map replace_zero (map (\<lambda>r. r ! j) rows)"
  using assms by simp

lemma in_map_filter: "a \<in> set (map f (filter P xs)) \<longleftrightarrow> (\<exists>x \<in> set xs. P x \<and> a = f x)"
  by auto

lemma bex_labelled_columns:
  "(\<exists>x \<in> set (labelled_columns cols rows). Q x) \<longleftrightarrow>
     (\<exists>j < length cols. Q (cols ! j, map (\<lambda>r. r ! j) rows))"
  unfolding labelled_columns_def by (simp add: Bex_def image_iff) blast

lemma kept_column:
  assumes rect: "\<forall>r \<in> set rows. length r = length cols" and j: "j < length cols"
  shows "list_ex (\<lambda>v. v \<noteq> NaN) (map (\<lambda>r. r ! j) (map (map replace_zero) rows)) \<and>
           a = (cols ! j, nanmean (map (\<lambda>r. r ! j) (map (map replace_zero) rows)))
         \<longleftrightarrow> (\<exists>r \<in> set rows. r ! j \<noteq> 0) \<and>
           a = (cols ! j, Fin (nonzero_mean (map (\<lambda>r. r ! j) rows)))"
proof -
  let ?c = "map (\<lambda>r. r ! j) rows"
  have c: "map (\<lambda>r. r ! j) (map (map replace_zero) rows) = map replace_zero ?c"
    using rect j by (rule replaced_column)
  have e: "(\<exists>v \<in> set ?c. v \<noteq> 0) \<longleftrightarrow> (\<exists>r \<in> set rows. r ! j \<noteq> 0)"
    by (simp add: Bex_def image_iff) blast
  show ?thesis
  proof (cases "\<exists>v \<in> set ?c. v \<noteq> 0")
    case True
    then have "nanmean (map replace_zero ?c) = Fin (nonzero_mean ?c)"
      by (rule nanmean_replace_zero)
    with True e show ?thesis
      unfolding c list_ex_replace_zero by simp
  next
    case False
    with e show ?thesis
      unfolding c list_ex_replace_zero by simp
  qed
qed

lemma in_kept_means:
  assumes rect: "\<forall>r \<in> set rows. length r = length cols"
  shows "a \<in> set (kept_means cols rows) \<longleftrightarrow>
     (\<exists>j < length cols. (\<exists>r \<in> set rows. r ! j \<noteq> 0) \<and>
        a = (cols ! j, Fin (nonzero_mean (map (\<lambda>r. r ! j) rows))))"
proof -
  have "a \<in> set (kept_means cols rows) \<longleftrightarrow>
      (\<exists>j < length cols.
         list_ex (\<lambda>v. v \<noteq> NaN) (map (\<lambda>r. r ! j) (map (map replace_zero) rows)) \<and>
         a = (cols ! j, nanmean (map (\<lambda>r. r ! j) (map (map replace_zero) rows))))"
    unfolding kept_means_def dropna_all_def in_map_filter bex_labelled_columns
    by (simp only: prod.case)
  also have "\<dots> \<longleftrightarrow> (\<exists>j < length cols. (\<exists>r \<in> set rows. r ! j \<noteq> 0) \<and>
        a = (cols ! j, Fin (nonzero_mean (map (\<lambda>r. r ! j) rows))))"
    using kept_column [OF rect] by blast
  finally show ?thesis .
qed

lemma map_fst_kept_means:
  "map fst (kept_means cols rows)
     = map fst (dropna_all (labelled_columns cols (map (map replace_zero) rows)))"
  by (simp add: kept_means_def comp_def case_prod_unfold)

lemma distinct_kept_means: "distinct cols \<Longrightarrow> distinct (map fst (kept_means cols rows))"
  unfolding map_fst_kept_means dropna_all_def
  by (rule distinct_map_filter) simp

lemma set_fst_kept_means: "fst ` set (kept_means cols rows) \<subseteq> set cols"
proof -
  have "set (map fst (kept_means cols rows))
          \<subseteq> set (map fst (labelled_columns cols (map (map replace_zero) rows)))"
    unfolding map_fst_kept_means dropna_all_def set_map
    by (rule image_mono) (rule filter_is_subset)
  then show ?thesis by simp
qed

lemma nanmean_not_NaN:
  assumes "list_ex (\<lambda>v. v \<noteq> NaN) c"
  shows "nanmean c \<noteq> NaN"
proof -
  obtain v where "v \<in> set c" "v \<noteq> NaN"
    using assms by (auto simp: list_ex_iff)
  then have "present c \<noteq> []"
    using present_none_NaN [of c v] by blast
  then show ?thesis by (simp add: nanmean_def Let_def)
qed

lemma kept_means_not_NaN:
  assumes "a \<in> set (kept_means cols rows)"
  shows "snd a \<noteq> NaN"
proof -
  obtain l c where "list_ex (\<lambda>v. v \<noteq> NaN) c" "a = (l, nanmean c)"
    using assms by (auto simp: kept_means_def dropna_all_def)
  then show ?thesis by (simp add: nanmean_not_NaN)
qed

lemma means_series_sorted:
  "means_series cols rows = sorted_reverse snd (kept_means cols rows)"
proof -
  have nn: "snd a \<noteq> NaN" if "a \<in> set (kept_means cols rows)" for a
    using that by (rule kept_means_not_NaN)
  have all: "filter (\<lambda>(l, v). v \<noteq> NaN) (kept_means cols rows) = kept_means cols rows"
    unfolding filter_id_conv using nn by (auto simp: case_prod_unfold)
  have none: "filter (\<lambda>(l, v). v = NaN) (kept_means cols rows) = []"
    unfolding filter_empty_conv using nn by (auto simp: case_prod_unfold)
  have "means_series cols rows = sort_values_desc (kept_means cols rows)"
    by (simp add: means_series_def kept_means_def Let_def)
  then show ?thesis by (simp add: sort_values_desc_def all none)
qed

lemma set_means_series [simp]: "set (means_series cols rows) = set (kept_means cols rows)"
  by (simp add: means_series_sorted)

lemma distinct_means_series:
  "distinct cols \<Longrightarrow> distinct (map fst (means_series cols rows))"
  by (simp add: means_series_sorted distinct_kept_means)

lemma means_series_descending:
  "sorted_wrt (\<lambda>a b. \<not> fl_less (snd a) (snd b)) (means_series cols rows)"
  unfolding means_series_sorted
  by (rule sorted_reverse_descending) (simp add: kept_means_not_NaN)

lemma length_top_movie_ids: "length (top_movie_ids cols rows) \<le> 10"
  by (simp add: top_movie_ids_def)

lemma distinct_top_movie_ids: "distinct cols \<Longrightarrow> distinct (top_movie_ids cols rows)"
  unfolding top_movie_ids_def by (rule distinct_take) (rule distinct_means_series)

lemma set_top_movie_ids: "set (top_movie_ids cols rows) \<subseteq> fst ` set (kept_means cols rows)"
proof -
  have "set (top_movie_ids cols rows) \<subseteq> set (map fst (means_series cols rows))"
    unfolding top_movie_ids_def by (rule set_take_subset)
  then show ?thesis by simp
qed

lemma means_series_descending_Fin:
  "sorted_wrt (\<lambda>a b. \<exists>x y. snd a = Fin x \<and> snd b = Fin y \<and> y \<le> x) (means_series cols rows)"
proof -
  have "\<exists>x y. snd a = Fin x \<and> snd b = Fin y \<and> y \<le> x"
    if "a \<in> set (means_series cols rows)" "b \<in> set (means_series cols rows)"
      "\<not> fl_less (snd a) (snd b)" for a b
  proof -
    have "snd a \<noteq> NaN" "snd b \<noteq> NaN"
      using that(1,2) by (simp_all add: kept_means_not_NaN)
    then obtain x y where "snd a = Fin x" "snd b = Fin y"
      by (cases "snd a"; cases "snd b") auto
    with that(3) show ?thesis by simp
  qed
  note imp = this
  show ?thesis
    by (rule sorted_wrt_mono_rel [OF _ means_series_descending]) (rule imp)
qed



section \<open>A user without ratings\<close>

lemma MAX_bounds: "2 \<le> MAX_MOVIE_ID" "20 \<le> MAX_USER_ID" "0 < MAX_USER_ID" "0 < MAX_MOVIE_ID"
  by (simp_all add: MAX_MOVIE_ID_def MAX_USER_ID_def)

lemma dot_replicate_zero: "dot (replicate n 0) (replicate n 0) = 0"
  by (induction n) auto

lemma similarity_zero_query:
  assumes "length x = n"
  shows "similarity x (replicate n (Fin 0)) = Inr NaN"
proof -
  have "replicate n (Fin 0) = map Fin (replicate n 0)" by simp
  moreover have "magnitude (replicate n 0) = 0"
    by (simp add: magnitude_zero_iff)
  ultimately show ?thesis
    using similarity_Fin [of x "replicate n 0"] assms by simp
qed

lemma user_ratings_row_empty:
  assumes "length (columns u) = MAX_MOVIE_ID"
  shows "user_ratings_row [] u movies = Inr (zip (columns u) (replicate MAX_MOVIE_ID (Fin 0)))"
  using assms by (simp add: user_ratings_row_def Series_def)

lemma relevant_idx_all_NaN:
  assumes rows: "\<forall>i < MAX_USER_ID. i < length (cells u) \<and> length (cells u ! i) = length y"
    and nan: "\<forall>i < MAX_USER_ID. similarity (cells u ! i) y = Inr NaN"
  shows "relevant_idx u y = Inr [0..<20]"
proof -
  let ?c = "map (\<lambda>i. (i, NaN)) [0..<MAX_USER_ID]"
  have "correlations_loop u y [0..<MAX_USER_ID]
          = Inr (map (\<lambda>i. (i, projr (similarity (cells u ! i) y))) [0..<MAX_USER_ID])"
    using rows by (intro correlations_loop_Inr) simp
  also have "map (\<lambda>i. (i, projr (similarity (cells u ! i) y))) [0..<MAX_USER_ID] = ?c"
    using nan by (intro map_cong refl) simp
  finally have c: "correlations_loop u y [0..<MAX_USER_ID] = Inr ?c" .
  have s: "sorted_reverse snd ?c = ?c"
    by (rule sorted_reverse_all_NaN) auto
  have "take 20 ?c = map (\<lambda>i. (i, NaN)) [0..<20]"
    using MAX_bounds(2) by (simp add: take_map min_def)
  then have "map fst (take 20 ?c) = [0..<20]"
    by (simp add: comp_def)
  then show ?thesis
    by (simp add: relevant_idx_def c s)
qed

lemma movie_ids_rec_empty:
  assumes width: "length (columns u) = MAX_MOVIE_ID"
    and rows: "\<forall>i < MAX_USER_ID. i < length (cells u) \<and> length (cells u ! i) = MAX_MOVIE_ID"
  shows "movie_ids_rec [] u movies =
           (case loc_rows u (map int [0..<20]) of
              Inl e \<Rightarrow> Inl e
            | Inr closests_users \<Rightarrow> Inr (top_movie_ids (columns u) closests_users))"
proof -
  let ?y = "replicate MAX_MOVIE_ID (Fin 0)"
  have y: "map snd (zip (columns u) ?y) = ?y"
    using width by (simp add: map_snd_zip)
  have "relevant_idx u ?y = Inr [0..<20]"
  proof (rule relevant_idx_all_NaN)
    show "\<forall>i < MAX_USER_ID. i < length (cells u) \<and> length (cells u ! i) = length ?y"
      using rows by simp
    show "\<forall>i < MAX_USER_ID. similarity (cells u ! i) ?y = Inr NaN"
      using rows by (simp add: similarity_zero_query)
  qed
  then show ?thesis
    by (simp add: movie_ids_rec_def user_ratings_row_empty [OF width] y)
qed

subsection \<open>Rows labelled by their positions\<close>

lemma zip_upt_nth: "length cs = n \<Longrightarrow> zip (map int [0..<n]) cs = map (\<lambda>j. (int j, cs ! j)) [0..<n]"
  by (auto simp: list_eq_iff_nth_eq)

lemma filter_upt_eq: "i < n \<Longrightarrow> filter (\<lambda>j. j = i) [0..<n] = [i]"
  by (rule filter_eq_single) simp_all

lemma loc_row_position:
  assumes "index df = map int [0..<n]" "length (cells df) = n" "i < n"
  shows "map snd (filter (\<lambda>(k, r). k = int i) (zip (index df) (cells df))) = [cells df ! i]"
proof -
  have "filter (\<lambda>(k, r). k = int i) (zip (index df) (cells df))
          = map (\<lambda>j. (int j, cells df ! j)) (filter (\<lambda>j. j = i) [0..<n])"
    unfolding assms(1) zip_upt_nth [OF assms(2)]
    by (simp add: filter_map comp_def)
  then show ?thesis using assms(3) by (simp add: filter_upt_eq)
qed

lemma loc_rows_positions:
  assumes "index df = map int [0..<n]" "length (cells df) = n" "\<forall>i \<in> set is. i < n"
  shows "loc_rows df (map int is) = Inr (map (\<lambda>i. cells df ! i) is)"
  using assms(3)
proof (induction "is")
  case Nil
  then show ?case by simp
next
  case (Cons i "is")
  then have "i < n" by simp
  from loc_row_position [OF assms(1,2) this] Cons show ?case by simp
qed

subsection \<open>Neighbours with equal rows\<close>

lemma present_replicate_Fin: "present (replicate k (Fin v)) = replicate k v"
  by (induction k) auto

lemma nanmean_replicate: "0 < k \<Longrightarrow> nanmean (replicate k (Fin v)) = Fin v"
  by (simp add: nanmean_def present_replicate_Fin sum_list_replicate)

lemma kept_means_equal_rows:
  assumes k: "0 < k" and len: "length r = length cols"
  shows "kept_means cols (replicate k r)
           = map (\<lambda>j. (cols ! j, Fin (r ! j))) (filter (\<lambda>j. r ! j \<noteq> 0) [0..<length cols])"
proof -
  let ?rows = "map (map replace_zero) (replicate k r)"
  have col: "map (\<lambda>r. r ! j) ?rows = replicate k (replace_zero (r ! j))"
    if "j < length cols" for j
    using that len by simp
  have lc: "labelled_columns cols ?rows
              = map (\<lambda>j. (cols ! j, replicate k (replace_zero (r ! j)))) [0..<length cols]"
    unfolding labelled_columns_def using col by (intro map_cong refl) simp
  have keep: "list_ex (\<lambda>v. v \<noteq> NaN) (replicate k (replace_zero v)) \<longleftrightarrow> v \<noteq> 0" for v :: real
    using k by (auto simp: list_ex_iff replace_zero_def)
  have "dropna_all (labelled_columns cols ?rows)
          = map (\<lambda>j. (cols ! j, replicate k (replace_zero (r ! j))))
              (filter (\<lambda>j. r ! j \<noteq> 0) [0..<length cols])"
    unfolding lc dropna_all_def by (simp add: filter_map comp_def keep)
  moreover have "nanmean (replicate k (replace_zero v)) = Fin v" if "v \<noteq> 0" for v :: real
    using that k by (simp add: replace_zero_def nanmean_replicate)
  ultimately show ?thesis
    unfolding kept_means_def by (simp add: comp_def cong: map_cong)
qed

subsection \<open>The population of equal rows\<close>

lemma upt_two: "2 \<le> n \<Longrightarrow> [0..<n] = 0 # 1 # [2..<n]"
  by (simp add: upt_conv_Cons numeral_2_eq_2)

lemma population_row_nonzero:
  "filter (\<lambda>j. (1 # - 1 # replicate (MAX_MOVIE_ID - 2) (0 :: real)) ! j \<noteq> 0) [0..<MAX_MOVIE_ID]
     = [0, 1]"
proof -
  let ?r = "1 # - 1 # replicate (MAX_MOVIE_ID - 2) (0 :: real)"
  have "?r ! j = 0" if "j \<in> set [2..<MAX_MOVIE_ID]" for j
  proof -
    from that have b: "2 \<le> j" "j < MAX_MOVIE_ID" by simp_all
    define k where "k = j - 2"
    have "j = Suc (Suc k)" "k < MAX_MOVIE_ID - 2"
      using b by (simp_all add: k_def)
    then show ?thesis by simp
  qed
  then have "filter (\<lambda>j. ?r ! j \<noteq> 0) [2..<MAX_MOVIE_ID] = []"
    by (simp add: filter_empty_conv)
  then show ?thesis
    unfolding upt_two [OF MAX_bounds(1)] by simp
qed

lemma top_movie_ids_population:
  "top_movie_ids (columns population)
     (replicate 20 (1 # - 1 # replicate (MAX_MOVIE_ID - 2) 0)) = [0, 1]"
proof -
  let ?r = "1 # - 1 # replicate (MAX_MOVIE_ID - 2) (0 :: real)"
  have len: "length ?r = length (columns population)"
    using MAX_bounds(1) by (simp add: length_columns_population)
  have c: "columns population ! 0 = 0" "columns population ! Suc 0 = 1"
    by (simp_all add: nth_columns_population MAX_MOVIE_ID_def)
  have "kept_means (columns population) (replicate 20 ?r)
          = map (\<lambda>j. (columns population ! j, Fin (?r ! j))) [0, 1]"
    using kept_means_equal_rows [of 20 ?r "columns population", OF _ len]
    by (simp only: length_columns_population population_row_nonzero zero_less_numeral)
  also have "\<dots> = [(0, Fin 1), (1, Fin (- 1))]"
    by (simp add: c)
  finally have k: "kept_means (columns population) (replicate 20 ?r)
                     = [(0, Fin 1), (1, Fin (- 1))]" .
  show ?thesis
    by (simp add: top_movie_ids_def means_series_sorted k sorted_reverse_def)
qed

lemma rows_population:
  "\<forall>i < MAX_USER_ID. i < length (cells population) \<and>
     length (cells population ! i) = MAX_MOVIE_ID"
proof -
  have "length (1 # - 1 # replicate (MAX_MOVIE_ID - 2) (0 :: real)) = MAX_MOVIE_ID"
    using MAX_bounds(1) by simp
  then show ?thesis
    by (simp add: length_cells_population cells_population_row)
qed

lemma loc_rows_population:
  "loc_rows population (map int [0..<20])
     = Inr (replicate 20 (1 # - 1 # replicate (MAX_MOVIE_ID - 2) 0))"
proof -
  have "\<forall>i \<in> set [0..<20]. i < MAX_USER_ID"
    using MAX_bounds(2) by simp
  then have "loc_rows population (map int [0..<20])
               = Inr (map (\<lambda>i. cells population ! i) [0..<20])"
    by (intro loc_rows_positions) (simp_all add: population_def)
  also have "map (\<lambda>i. cells population ! i) [0..<20]
               = replicate 20 (1 # - 1 # replicate (MAX_MOVIE_ID - 2) 0)"
    using MAX_bounds(2) by (simp add: list_eq_iff_nth_eq cells_population_row)
  finally show ?thesis .
qed

lemma movie_ids_rec_population_empty: "movie_ids_rec [] population catalog = Inr [0, 1]"
  unfolding movie_ids_rec_empty [OF length_columns_population rows_population]
    loc_rows_population
  by (simp add: top_movie_ids_population)

lemma title_of_catalog:
  "title_of catalog 0 = Inr ''Toy Story (1995)''"
  "title_of catalog 1 = Inr ''Jumanji (1995)''"
  by (simp_all add: title_of_def catalog_def first_value_def)

lemma recommend_movies_population_empty:
  "recommend_movies [] population catalog
     = ([''Toy Story (1995)'', ''Jumanji (1995)''], None)"
  by (simp add: recommend_movies_def movie_ids_rec_population_empty title_of_catalog)

text \<open>
  Claim C2, as the code has it. For a user with zero rating entries and a utility matrix
  of the expected shape, the query vector is all zero, the score of every row is NaN, the
  sort leaves the rows in their order and the rows at the positions 0 to 19 are the
  closest users. The recommendation is then what their rows yield: the labels of the 10
  highest column means of the rows labelled 0 to 19, or \<open>KeyError\<close> when one of these
  labels is missing from the index. It is not the empty sequence in general.
\<close>

theorem no_ratings_recommendation:
  assumes "length (columns u) = MAX_MOVIE_ID"
    and "\<forall>i < MAX_USER_ID. i < length (cells u) \<and> length (cells u ! i) = MAX_MOVIE_ID"
  shows "user_ratings_row [] u movies = Inr (zip (columns u) (replicate MAX_MOVIE_ID (Fin 0))) \<and>
         (\<forall>i < MAX_USER_ID.
            similarity (cells u ! i) (replicate MAX_MOVIE_ID (Fin 0)) = Inr NaN) \<and>
         relevant_idx u (replicate MAX_MOVIE_ID (Fin 0)) = Inr [0..<20] \<and>
         movie_ids_rec [] u movies =
           (case loc_rows u (map int [0..<20]) of
              Inl e \<Rightarrow> Inl e
            | Inr closests_users \<Rightarrow> Inr (top_movie_ids (columns u) closests_users))"
proof -
  let ?y = "replicate MAX_MOVIE_ID (Fin 0)"
  have nan: "\<forall>i < MAX_USER_ID. similarity (cells u ! i) ?y = Inr NaN"
    using assms(2) by (simp add: similarity_zero_query)
  moreover have "relevant_idx u ?y = Inr [0..<20]"
    using assms(2) nan by (intro relevant_idx_all_NaN) simp_all
  ultimately show ?thesis
    using user_ratings_row_empty [OF assms(1)] movie_ids_rec_empty [OF assms]
    by simp
qed

text \<open>The population of 610 equal rows: the movies 0 and 1 are recommended.\<close>

theorem no_ratings_recommendation_witness:
  "length (columns population) = MAX_MOVIE_ID \<and>
   length (cells population) = MAX_USER_ID \<and>
   length (cells population ! 0) = MAX_MOVIE_ID \<and>
   relevant_idx population (replicate MAX_MOVIE_ID (Fin 0)) = Inr [0..<20] \<and>
   movie_ids_rec [] population catalog = Inr [0, 1]"
proof -
  have "length (cells population ! 0) = MAX_MOVIE_ID"
    using rows_population MAX_bounds(3) by blast
  then show ?thesis
    using no_ratings_recommendation [OF length_columns_population rows_population, of catalog]
    by (simp add: length_columns_population length_cells_population loc_rows_population
        top_movie_ids_population)
qed

text \<open>
  The claim as it is written fails: for the user without ratings and the population of
  610 equal rows, two titles are written, not none.
\<close>

theorem no_ratings_counterexample:
  "recommend_movies [] population catalog
     = ([''Toy Story (1995)'', ''Jumanji (1995)''], None) \<and>
   fst (recommend_movies [] population catalog) \<noteq> []"
  by (simp add: recommend_movies_population_empty)

section \<open>The titles written\<close>

lemma movie_ids_rec_Inr:
  assumes "movie_ids_rec ur u movies = Inr ids"
  shows "\<exists>closests_users. ids = top_movie_ids (columns u) closests_users"
  using assms by (auto simp: movie_ids_rec_def split: sum.splits)

lemma set_top_movie_ids_columns: "set (top_movie_ids cols rows) \<subseteq> set cols"
  using set_top_movie_ids [of cols rows] set_fst_kept_means [of cols rows] by blast

lemma write_titles_prefix:
  "\<exists>k \<le> length ids.
     length (fst (write_titles movies ids)) = k \<and>
     map (title_of movies) (take k ids) = map Inr (fst (write_titles movies ids))"
proof (induction ids)
  case Nil
  then show ?case by simp
next
  case (Cons i ids)
  show ?case
  proof (cases "title_of movies i")
    case (Inl e)
    then show ?thesis by simp
  next
    case (Inr title)
    from Cons obtain k where k: "k \<le> length ids"
      "length (fst (write_titles movies ids)) = k"
      "map (title_of movies) (take k ids) = map Inr (fst (write_titles movies ids))"
      by blast
    have "fst (write_titles movies (i # ids)) = title # fst (write_titles movies ids)"
      using Inr by (simp add: case_prod_unfold Let_def)
    with k Inr show ?thesis
      by (intro exI [of _ "Suc k"]) simp
  qed
qed

lemma length_write_titles: "length (fst (write_titles movies ids)) \<le> length ids"
  using write_titles_prefix [of ids movies] by auto

text \<open>
  Claim C1. Whatever the user ratings, the utility matrix and the catalog, at most 10
  titles are written. When an exception ends the function before the ranking is built,
  nothing is written. Otherwise the items recommended (\<open>movie_ids_rec\<close>) are at most 10
  column labels of the utility matrix, without duplicates when the column labels have
  none, and the titles written are those of the first items, in order, up to the first
  one that has no title in the catalog.
\<close>

theorem recommend_movies_at_most_ten:
  "length (fst (recommend_movies ur u movies)) \<le> 10 \<and>
   (case movie_ids_rec ur u movies of
      Inl e \<Rightarrow> recommend_movies ur u movies = ([], Some e)
    | Inr ids \<Rightarrow>
        length ids \<le> 10 \<and> set ids \<subseteq> set (columns u) \<and>
        (distinct (columns u) \<longrightarrow> distinct ids) \<and>
        (\<exists>k \<le> length ids.
           length (fst (recommend_movies ur u movies)) = k \<and>
           map (title_of movies) (take k ids) = map Inr (fst (recommend_movies ur u movies))))"
proof (cases "movie_ids_rec ur u movies")
  case (Inl e)
  then show ?thesis by (simp add: recommend_movies_def)
next
  case (Inr ids)
  then obtain rows where ids: "ids = top_movie_ids (columns u) rows"
    using movie_ids_rec_Inr by blast
  have l: "length ids \<le> 10" unfolding ids by (rule length_top_movie_ids)
  then have t: "take 10 ids = ids" by simp
  have r: "recommend_movies ur u movies = write_titles movies ids"
    using Inr t by (simp add: recommend_movies_def)
  have "length (fst (recommend_movies ur u movies)) \<le> 10"
    unfolding r using length_write_titles [of movies ids] l by linarith
  moreover have "set ids \<subseteq> set (columns u)"
    unfolding ids by (rule set_top_movie_ids_columns)
  moreover have "distinct (columns u) \<longrightarrow> distinct ids"
    unfolding ids by (simp add: distinct_top_movie_ids)
  moreover have "\<exists>k \<le> length ids.
           length (fst (recommend_movies ur u movies)) = k \<and>
           map (title_of movies) (take k ids) = map Inr (fst (recommend_movies ur u movies))"
    unfolding r by (rule write_titles_prefix)
  ultimately show ?thesis using Inr l by simp
qed

lemma distinct_columns_population: "distinct (columns population)"
  by (simp add: population_def distinct_map inj_on_def)

text \<open>The population of 610 equal rows and the user without ratings: two items.\<close>

theorem recommend_movies_at_most_ten_witness:
  "distinct (columns population) \<and>
   movie_ids_rec [] population catalog = Inr [0, 1] \<and>
   distinct [0, 1 :: int] \<and>
   length (fst (recommend_movies [] population catalog)) \<le> 10 \<and>
   fst (recommend_movies [] population catalog) = [''Toy Story (1995)'', ''Jumanji (1995)'']"
  using recommend_movies_at_most_ten [of "[]" population catalog]
  by (simp add: movie_ids_rec_population_empty distinct_columns_population
      recommend_movies_population_empty)

section \<open>The scenario of the specification\<close>

lemma user_ratings_row_width:
  "length (columns u) \<noteq> MAX_MOVIE_ID \<Longrightarrow> user_ratings_row ur u movies = Inl ValueError"
  by (simp add: user_ratings_row_def Series_def)

lemma recommend_movies_width:
  "length (columns u) \<noteq> MAX_MOVIE_ID \<Longrightarrow> recommend_movies ur u movies = ([], Some ValueError)"
  by (simp add: recommend_movies_def movie_ids_rec_def user_ratings_row_width)

lemma scenario_utility_cells:
  "scenario_utility =
     \<lparr>index = [0, 1, 2], columns = [0, 1, 2, 3],
      cells = [[1, - 1, 0, 0], [0, - (1 / 2), 1 / 2, 0], [- 2, 0, 0, 2]]\<rparr>"
  by (simp add: scenario_utility_def scenario_csv_def load_movielens_data_def
      sub_row_mean_def nanmean_def)

lemma scenario_query:
  "rate_loop scenario_movies scenario_ratings (map fst scenario_ratings)
     (zip [0, 1, 2, 3] (replicate 4 (Fin 0)))
   = Inr (zip [0, 1, 2, 3] [Fin 5, Fin 3, Fin 0, Fin 0])"
  by (simp add: scenario_movies_def scenario_ratings_def movie_id_of_def rating_of_def
      first_value_def series_setitem_def numeral_eq_Suc)

lemma sqrt_8: "sqrt 8 = 4 * sqrt (1 / 2)"
proof -
  have "sqrt 8 = sqrt (4\<^sup>2 * (1 / 2))" by simp
  also have "\<dots> = 4 * sqrt (1 / 2)"
    by (simp only: real_sqrt_mult real_sqrt_abs abs_numeral)
  finally show ?thesis .
qed

lemma scenario_scores:
  "0 < cos_sim [1, - 1, 0, 0] [5, 3, 0, 0]"
  "cos_sim [0, - (1 / 2), 1 / 2, 0] [5, 3, 0, 0] < 0"
  "cos_sim [- 2, 0, 0, 2] [5, 3, 0, 0] < cos_sim [0, - (1 / 2), 1 / 2, 0] [5, 3, 0, 0]"
proof -
  have p: "0 < sqrt (1 / 2) * sqrt 34" by simp
  show "0 < cos_sim [1, - 1, 0, 0] [5, 3, 0, 0]"
    by (simp add: cos_sim_def magnitude_def)
  show "cos_sim [0, - (1 / 2), 1 / 2, 0] [5, 3, 0, 0] < 0"
    by (simp add: cos_sim_def magnitude_def divide_neg_pos)
  have a: "cos_sim [- 2, 0, 0, 2] [5, 3, 0, 0] = - (5 / 2) / (sqrt (1 / 2) * sqrt 34)"
    by (simp add: cos_sim_def magnitude_def sqrt_8)
  have b: "cos_sim [0, - (1 / 2), 1 / 2, 0] [5, 3, 0, 0] = - (3 / 2) / (sqrt (1 / 2) * sqrt 34)"
    by (simp add: cos_sim_def magnitude_def)
  show "cos_sim [- 2, 0, 0, 2] [5, 3, 0, 0] < cos_sim [0, - (1 / 2), 1 / 2, 0] [5, 3, 0, 0]"
    unfolding a b using p by (simp add: divide_strict_right_mono)
qed

lemma scenario_correlations:
  "correlations_loop scenario_utility [Fin 5, Fin 3, Fin 0, Fin 0] [0..<3]
     = Inr [(0, Fin (cos_sim [1, - 1, 0, 0] [5, 3, 0, 0])),
            (1, Fin (cos_sim [0, - (1 / 2), 1 / 2, 0] [5, 3, 0, 0])),
            (2, Fin (cos_sim [- 2, 0, 0, 2] [5, 3, 0, 0]))]"
proof -
  have q: "[Fin 5, Fin 3, Fin 0, Fin 0] = map Fin [5, 3, 0, 0]" by simp
  have rows: "\<forall>i < 3. i < length (cells scenario_utility) \<and>
      length (cells scenario_utility ! i) = length [5, 3, 0, 0 :: real] \<and>
      magnitude (cells scenario_utility ! i) \<noteq> 0"
    by (auto simp: scenario_utility_cells magnitude_zero_iff less_Suc_eq numeral_3_eq_3)
  have "magnitude [5, 3, 0, 0] \<noteq> 0" by (simp add: magnitude_zero_iff)
  with rows have "correlations_loop scenario_utility (map Fin [5, 3, 0, 0]) [0..<3]
      = Inr (map (\<lambda>i. (i, Fin (cos_sim (cells scenario_utility ! i) [5, 3, 0, 0]))) [0..<3])"
    by (rule correlations_loop_Fin)
  then show ?thesis
    unfolding q by (simp add: scenario_utility_cells upt_conv_Cons numeral_3_eq_3)
qed

lemma scenario_sorted:
  "sorted_reverse snd
     [(0 :: nat, Fin (cos_sim [1, - 1, 0, 0] [5, 3, 0, 0])),
      (1, Fin (cos_sim [0, - (1 / 2), 1 / 2, 0] [5, 3, 0, 0])),
      (2, Fin (cos_sim [- 2, 0, 0, 2] [5, 3, 0, 0]))]
   = [(0, Fin (cos_sim [1, - 1, 0, 0] [5, 3, 0, 0])),
      (1, Fin (cos_sim [0, - (1 / 2), 1 / 2, 0] [5, 3, 0, 0])),
      (2, Fin (cos_sim [- 2, 0, 0, 2] [5, 3, 0, 0]))]"
proof (rule sorted_reverse_unchanged)
  have "cos_sim [0, - (1 / 2), 1 / 2, 0] [5, 3, 0, 0] < cos_sim [1, - 1, 0, 0] [5, 3, 0, 0]"
    using scenario_scores(1,2) by linarith
  moreover have "cos_sim [- 2, 0, 0, 2] [5, 3, 0, 0] < cos_sim [1, - 1, 0, 0] [5, 3, 0, 0]"
    using scenario_scores by linarith
  ultimately show "sorted_wrt (\<lambda>a b. \<not> fl_less (snd a) (snd b))
     [(0 :: nat, Fin (cos_sim [1, - 1, 0, 0] [5, 3, 0, 0])),
      (1, Fin (cos_sim [0, - (1 / 2), 1 / 2, 0] [5, 3, 0, 0])),
      (2, Fin (cos_sim [- 2, 0, 0, 2] [5, 3, 0, 0]))]"
    using scenario_scores(3) by simp
qed

lemma scenario_loc:
  "loc_rows scenario_utility (map int [0, 1, 2]) = Inr (cells scenario_utility)"
  by (simp add: scenario_utility_cells)

lemma scenario_means:
  "means_series (columns scenario_utility) (cells scenario_utility)
     = [(3, Fin 2), (2, Fin (1 / 2)), (0, Fin (- (1 / 2))), (1, Fin (- (3 / 4)))]"
  by (simp add: scenario_utility_cells means_series_def labelled_columns_def dropna_all_def
      sort_values_desc_def sorted_reverse_def nanmean_def replace_zero_def upt_conv_Cons)

text \<open>
  Claim C8, as the code has it. \<open>recommend_movies\<close> itself does not run on this population:
  it requires the 14076 columns and scans the 610 rows of its data. Its steps, run over
  the three rows and four items, give what the claim describes. Centering yields the rows
  \<open>[1, -1, 0, 0]\<close>, \<open>[0, -1/2, 1/2, 0]\<close> and \<open>[-2, 0, 0, 2]\<close>; the query vector is
  \<open>[5, 3, 0, 0]\<close>; the scores fall from the first row to the third, so the first row is
  ranked highest; all three rows are neighbours; the column means are 2 for item 3, 1/2
  for item 2, -1/2 for item 0 and -3/4 for item 1, so item 3, which the user has not
  rated, comes first. The items 0 and 1, which the user has rated, are not excluded: they
  are ranked third and fourth.
\<close>

theorem scenario_ranking:
  "cells scenario_utility = [[1, - 1, 0, 0], [0, - (1 / 2), 1 / 2, 0], [- 2, 0, 0, 2]] \<and>
   rate_loop scenario_movies scenario_ratings (map fst scenario_ratings)
     (zip (columns scenario_utility) (replicate 4 (Fin 0)))
     = Inr (zip (columns scenario_utility) [Fin 5, Fin 3, Fin 0, Fin 0]) \<and>
   (\<exists>s0 s1 s2.
      correlations_loop scenario_utility [Fin 5, Fin 3, Fin 0, Fin 0] [0..<3]
        = Inr [(0, Fin s0), (1, Fin s1), (2, Fin s2)] \<and>
      s2 < s1 \<and> s1 < s0 \<and>
      map fst (take 20 (sorted_reverse snd [(0 :: nat, Fin s0), (1, Fin s1), (2, Fin s2)]))
        = [0, 1, 2]) \<and>
   loc_rows scenario_utility (map int [0, 1, 2]) = Inr (cells scenario_utility) \<and>
   means_series (columns scenario_utility) (cells scenario_utility)
     = [(3, Fin 2), (2, Fin (1 / 2)), (0, Fin (- (1 / 2))), (1, Fin (- (3 / 4)))] \<and>
   top_movie_ids (columns scenario_utility) (cells scenario_utility) = [3, 2, 0, 1] \<and>
   title_of scenario_movies 3 = Inr ''Item 3'' \<and>
   ''Item 3'' \<notin> fst ` set scenario_ratings"
proof -
  let ?s0 = "cos_sim [1, - 1, 0, 0] [5, 3, 0, 0]"
  let ?s1 = "cos_sim [0, - (1 / 2), 1 / 2, 0] [5, 3, 0, 0]"
  let ?s2 = "cos_sim [- 2, 0, 0, 2] [5, 3, 0, 0]"
  have cols: "columns scenario_utility = [0, 1, 2, 3]"
    by (simp add: scenario_utility_cells)
  have o: "?s1 < ?s0" using scenario_scores(1,2) by linarith
  have t: "map fst (take 20 (sorted_reverse snd
             [(0 :: nat, Fin ?s0), (1, Fin ?s1), (2, Fin ?s2)])) = [0, 1, 2]"
    unfolding scenario_sorted by simp
  have "\<exists>s0 s1 s2.
      correlations_loop scenario_utility [Fin 5, Fin 3, Fin 0, Fin 0] [0..<3]
        = Inr [(0, Fin s0), (1, Fin s1), (2, Fin s2)] \<and>
      s2 < s1 \<and> s1 < s0 \<and>
      map fst (take 20 (sorted_reverse snd [(0 :: nat, Fin s0), (1, Fin s1), (2, Fin s2)]))
        = [0, 1, 2]"
    by (rule exI [of _ ?s0], rule exI [of _ ?s1], rule exI [of _ ?s2])
       (intro conjI scenario_correlations scenario_scores(3) o t)
  moreover have "cells scenario_utility
      = [[1, - 1, 0, 0], [0, - (1 / 2), 1 / 2, 0], [- 2, 0, 0, 2]]"
    by (simp add: scenario_utility_cells)
  moreover have "rate_loop scenario_movies scenario_ratings (map fst scenario_ratings)
     (zip (columns scenario_utility) (replicate 4 (Fin 0)))
     = Inr (zip (columns scenario_utility) [Fin 5, Fin 3, Fin 0, Fin 0])"
    unfolding cols by (rule scenario_query)
  moreover have "top_movie_ids (columns scenario_utility) (cells scenario_utility) = [3, 2, 0, 1]"
    by (simp add: top_movie_ids_def scenario_means)
  moreover have "title_of scenario_movies 3 = Inr ''Item 3''"
    by (simp add: title_of_def scenario_movies_def first_value_def)
  moreover have "''Item 3'' \<notin> fst ` set scenario_ratings"
    by (simp add: scenario_ratings_def)
  ultimately show ?thesis
    using scenario_loc scenario_means by blast
qed

text \<open>
  The claim as it is written fails on the code: for the population of 3 rows over 4
  items \<open>recommend_movies\<close> raises \<open>ValueError\<close> when it builds the query vector of 14076
  zeros over 4 column labels, and recommends nothing.
\<close>

theorem scenario_counterexample:
  "length (columns scenario_utility) = 4 \<and>
   user_ratings_row scenario_ratings scenario_utility scenario_movies = Inl ValueError \<and>
   recommend_movies scenario_ratings scenario_utility scenario_movies = ([], Some ValueError)"
proof -
  have l: "length (columns scenario_utility) = 4"
    by (simp add: scenario_utility_cells)
  then have "length (columns scenario_utility) \<noteq> MAX_MOVIE_ID"
    by (simp add: MAX_MOVIE_ID_def)
  then show ?thesis
    using l by (simp add: user_ratings_row_width recommend_movies_width)
qed

end
